theory Spec2Isabelle
  imports Main "HOL-Library.Word"
begin

section \<open>JavaScript values\<close>

text \<open>
  A JavaScript string is a sequence of UTF-16 code units. \<open>js\<close> turns an ASCII literal
  of the source into such a string.
\<close>

type_synonym jschar = "16 word"
type_synonym jsstring = "jschar list"

definition js :: "string \<Rightarrow> jsstring" where
  "js s = map (\<lambda>c. of_char c) s"

text \<open>
  Runtime values. A number is kept as its decimal literal (the double it denotes is not
  computed); an object is the list of its own enumerable properties in creation order.
\<close>

datatype jsval =
    JUndefined
  | JNull
  | JBool bool
  | JNum jsstring
  | JStr jsstring
  | JArr "jsval list"
  | JObj "(jsstring \<times> jsval) list"

text \<open>Property assignment \<open>o[k] = v\<close>: an existing property keeps its place.\<close>

fun obj_put :: "(jsstring \<times> 'v) list \<Rightarrow> jsstring \<Rightarrow> 'v \<Rightarrow> (jsstring \<times> 'v) list" where
  "obj_put [] k v = [(k, v)]"
| "obj_put ((k', v') # ps) k v = (if k' = k then (k, v) # ps else (k', v') # obj_put ps k v)"

text \<open>Property read \<open>o.k\<close> on a value: a missing property reads as \<open>undefined\<close>.\<close>

fun get_prop :: "jsval \<Rightarrow> jsstring \<Rightarrow> jsval" where
  "get_prop (JObj ps) k = (case map_of ps k of None \<Rightarrow> JUndefined | Some v \<Rightarrow> v)"
| "get_prop _ k = JUndefined"

definition has_own :: "jsval \<Rightarrow> jsstring \<Rightarrow> bool" where
  "has_own v k = (case v of JObj ps \<Rightarrow> k \<in> set (map fst ps) | _ \<Rightarrow> False)"

definition own_keys :: "jsval \<Rightarrow> jsstring list" where
  "own_keys v = (case v of JObj ps \<Rightarrow> map fst ps | _ \<Rightarrow> [])"

text \<open>
  Truthiness, as tested by \<open>if (x)\<close>, \<open>!x\<close> and \<open>x || d\<close>. A number literal is zero
  when its mantissa has no digit from 1 to 9.
\<close>

definition num_nonzero :: "jsstring \<Rightarrow> bool" where
  "num_nonzero l =
     list_ex (\<lambda>c. 0x31 \<le> c \<and> c \<le> 0x39) (takeWhile (\<lambda>c. c \<noteq> 0x65 \<and> c \<noteq> 0x45) l)"

fun truthy :: "jsval \<Rightarrow> bool" where
  "truthy JUndefined = False"
| "truthy JNull = False"
| "truthy (JBool b) = b"
| "truthy (JNum l) = num_nonzero l"
| "truthy (JStr s) = (s \<noteq> [])"
| "truthy (JArr xs) = True"
| "truthy (JObj ps) = True"

text \<open>\<open>s || d\<close> for an optional string \<open>s\<close> (\<open>None\<close> is \<open>undefined\<close> or \<open>null\<close>).\<close>

definition or_else :: "jsstring option \<Rightarrow> jsstring \<Rightarrow> jsstring" where
  "or_else s d = (case s of None \<Rightarrow> d | Some t \<Rightarrow> if t = [] then d else t)"

definition opt_str :: "jsstring option \<Rightarrow> jsval" where
  "opt_str s = (case s of None \<Rightarrow> JUndefined | Some t \<Rightarrow> JStr t)"

section \<open>Whitespace: \<open>trim()\<close> and \<open>replace(/\s+/g, ' ')\<close>\<close>

text \<open>
  The code units that \<open>String.prototype.trim\<close> strips and that \<open>\s\<close> matches: the
  WhiteSpace and LineTerminator productions of ECMAScript.
\<close>

definition isWhiteSpace :: "jschar \<Rightarrow> bool" where
  "isWhiteSpace c \<longleftrightarrow>
     c \<in> {0x09, 0x0A, 0x0B, 0x0C, 0x0D, 0x20, 0xA0, 0x1680,
          0x2000, 0x2001, 0x2002, 0x2003, 0x2004, 0x2005, 0x2006, 0x2007, 0x2008, 0x2009, 0x200A,
          0x2028, 0x2029, 0x202F, 0x205F, 0x3000, 0xFEFF}"

definition trim :: "jsstring \<Rightarrow> jsstring" where
  "trim s = rev (dropWhile isWhiteSpace (rev (dropWhile isWhiteSpace s)))"

text \<open>
  \<open>s.replace(/\s+/g, ' ')\<close>: scanning from the left, every maximal run of whitespace is
  replaced by one space; other code units are copied.
\<close>

function replace_ws :: "jsstring \<Rightarrow> jsstring" where
  "replace_ws [] = []"
| "replace_ws (c # cs) =
     (if isWhiteSpace c then 0x20 # replace_ws (dropWhile isWhiteSpace cs)
      else c # replace_ws cs)"
  by pat_completeness auto
termination
  by (relation "measure length") (auto simp: length_dropWhile_le less_Suc_eq_le)

text \<open>The expression \<open>t.trim().replace(/\s+/g, ' ')\<close> shared by all three scrapers.\<close>

definition normalizeText :: "jsstring \<Rightarrow> jsstring" where
  "normalizeText t = replace_ws (trim t)"

section \<open>Documents as the selector engines see them\<close>

text \<open>
  The markup parser and the selector engine (cheerio in \<open>cheerio.ts\<close>, the browser in
  \<open>puppeteer.ts\<close>) are libraries: a loaded document is the function from a selector to
  the elements it matches, in document order. An element carries what the scrapers read
  from it.
\<close>

record element =
  attributes :: "(jsstring \<times> jsstring) list"
  textContent :: jsstring
  innerHTML :: jsstring
  innerText :: jsstring
  href :: jsstring
  src :: jsstring

type_synonym selection = "element list"
type_synonym cheerio = "jsstring \<Rightarrow> selection"

text \<open>\<open>$(sel).text()\<close>: the combined text of every matched element.\<close>

definition text_of :: "selection \<Rightarrow> jsstring" where
  "text_of els = concat (map textContent els)"

text \<open>\<open>$(sel).attr(name)\<close>: the attribute of the first matched element, or \<open>undefined\<close>.\<close>

definition attr :: "selection \<Rightarrow> jsstring \<Rightarrow> jsstring option" where
  "attr els name = (case els of [] \<Rightarrow> None | e # _ \<Rightarrow> map_of (attributes e) name)"

text \<open>\<open>$(sel).html()\<close>: the inner markup of the first matched element, or \<open>null\<close>.\<close>

definition html_of :: "selection \<Rightarrow> jsstring option" where
  "html_of els = (case els of [] \<Rightarrow> None | e # _ \<Rightarrow> Some (innerHTML e))"

text \<open>\<open>el.getAttribute(name)\<close> in the browser: \<open>null\<close> when the attribute is absent.\<close>

definition getAttribute :: "element \<Rightarrow> jsstring \<Rightarrow> jsval" where
  "getAttribute e name = (case map_of (attributes e) name of None \<Rightarrow> JNull | Some v \<Rightarrow> JStr v)"

section \<open>\<open>JSON.parse\<close>\<close>

text \<open>
  The grammar of ECMA-404: a lexer into tokens, then a pushdown recogniser that builds
  the value. \<open>None\<close> is the \<open>SyntaxError\<close> that \<open>JSON.parse\<close> throws. A repeated
  key keeps its first place and its last value; keys that look like array indices are not
  moved to the front.
\<close>

datatype token =
    LBrace | RBrace | LBracket | RBracket | Colon | Comma
  | TString jsstring | TNumber jsstring | TTrue | TFalse | TNull

definition json_ws :: "jschar \<Rightarrow> bool" where
  "json_ws c \<longleftrightarrow> c = 0x20 \<or> c = 0x09 \<or> c = 0x0A \<or> c = 0x0D"

definition is_digit :: "jschar \<Rightarrow> bool" where
  "is_digit c \<longleftrightarrow> 0x30 \<le> c \<and> c \<le> 0x39"

definition hex_val :: "jschar \<Rightarrow> jschar option" where
  "hex_val c =
     (if 0x30 \<le> c \<and> c \<le> 0x39 then Some (c - 0x30)
      else if 0x41 \<le> c \<and> c \<le> 0x46 then Some (c - 0x37)
      else if 0x61 \<le> c \<and> c \<le> 0x66 then Some (c - 0x57)
      else None)"

definition hex4 :: "jschar \<Rightarrow> jschar \<Rightarrow> jschar \<Rightarrow> jschar \<Rightarrow> jschar option" where
  "hex4 a b c d =
     (case (hex_val a, hex_val b, hex_val c, hex_val d) of
        (Some w, Some x, Some y, Some z) \<Rightarrow> Some (((w * 16 + x) * 16 + y) * 16 + z)
      | _ \<Rightarrow> None)"

definition unescape :: "jschar \<Rightarrow> jschar option" where
  "unescape e =
     (if e = 0x22 then Some 0x22 else if e = 0x5C then Some 0x5C else if e = 0x2F then Some 0x2F
      else if e = 0x62 then Some 0x08 else if e = 0x66 then Some 0x0C
      else if e = 0x6E then Some 0x0A else if e = 0x72 then Some 0x0D
      else if e = 0x74 then Some 0x09 else None)"

text \<open>The body of a string literal, after its opening quote: the decoded string and the rest.\<close>

fun lex_string :: "jsstring \<Rightarrow> jsstring \<Rightarrow> (jsstring \<times> jsstring) option" where
  "lex_string [] acc = None"
| "lex_string (c # cs) acc =
     (if c = 0x22 then Some (rev acc, cs)
      else if c = 0x5C then
        (case cs of
           [] \<Rightarrow> None
         | e # es \<Rightarrow>
             if e = 0x75 then
               (case es of
                  a # b # c' # d # rest \<Rightarrow>
                    (case hex4 a b c' d of None \<Rightarrow> None | Some u \<Rightarrow> lex_string rest (u # acc))
                | _ \<Rightarrow> None)
             else (case unescape e of None \<Rightarrow> None | Some u \<Rightarrow> lex_string es (u # acc)))
      else if c < 0x20 then None
      else lex_string cs (c # acc))"

lemma lex_string_length: "lex_string s acc = Some (t, rest) \<Longrightarrow> length rest < length s"
proof (induction s acc rule: lex_string.induct)
  case (1 acc)
  then show ?case by simp
next
  case (2 c cs acc)
  show ?case
  proof (cases "c = 0x22")
    case True
    with "2.prems" show ?thesis by simp
  next
    case nq: False
    show ?thesis
    proof (cases "c = 0x5C")
      case False
      with nq "2.prems" "2.IH"(3) show ?thesis by (simp split: if_splits)
    next
      case bs: True
      then obtain e es where cs: "cs = e # es"
        using nq "2.prems" by (cases cs) simp_all
      show ?thesis
      proof (cases "e = 0x75")
        case False
        then obtain u where u: "unescape e = Some u"
          and r: "lex_string es (u # acc) = Some (t, rest)"
          using nq bs cs "2.prems" by (auto split: option.splits)
        from "2.IH"(2)[OF nq bs cs False u r] show ?thesis using cs by simp
      next
        case True
        then obtain a b c' d r' u where es: "es = a # b # c' # d # r'"
          and u: "hex4 a b c' d = Some u" and r: "lex_string r' (u # acc) = Some (t, rest)"
          using nq bs cs "2.prems" by (auto split: option.splits list.splits)
        from "2.IH"(1)[OF nq bs cs True es refl refl refl u r] show ?thesis
          using cs es by simp
      qed
    qed
  qed
qed

lemma lex_string_length_le: "lex_string s acc = Some (t, rest) \<Longrightarrow> length rest \<le> length s"
  using lex_string_length[of s acc t rest] by simp

text \<open>number = [ minus ] int [ frac ] [ exp ]\<close>

definition digits1 :: "jsstring \<Rightarrow> bool" where
  "digits1 s \<longleftrightarrow> s \<noteq> [] \<and> list_all is_digit s"

definition valid_int :: "jsstring \<Rightarrow> bool" where
  "valid_int s \<longleftrightarrow> digits1 s \<and> (if hd s = 0x30 then length s = 1 else True)"

definition valid_exp :: "jsstring \<Rightarrow> bool" where
  "valid_exp s \<longleftrightarrow>
     (case s of
        [] \<Rightarrow> True
      | e # r \<Rightarrow> (e = 0x65 \<or> e = 0x45) \<and>
          (case r of
             [] \<Rightarrow> False
           | g # ds \<Rightarrow> if g = 0x2B \<or> g = 0x2D then digits1 ds else digits1 r))"

definition valid_number :: "jsstring \<Rightarrow> bool" where
  "valid_number s =
     (let u = (case s of [] \<Rightarrow> [] | c # cs \<Rightarrow> if c = 0x2D then cs else s);
          ip = takeWhile is_digit u;
          r = dropWhile is_digit u
      in valid_int ip \<and>
         (case r of
            [] \<Rightarrow> True
          | c # cs \<Rightarrow>
              if c = 0x2E
              then digits1 (takeWhile is_digit cs) \<and> valid_exp (dropWhile is_digit cs)
              else valid_exp r))"

definition number_char :: "jschar \<Rightarrow> bool" where
  "number_char c \<longleftrightarrow>
     is_digit c \<or> c = 0x2D \<or> c = 0x2B \<or> c = 0x2E \<or> c = 0x65 \<or> c = 0x45"

definition is_letter :: "jschar \<Rightarrow> bool" where
  "is_letter c \<longleftrightarrow> 0x61 \<le> c \<and> c \<le> 0x7A"

definition cons_tok :: "token \<Rightarrow> token list option \<Rightarrow> token list option" where
  "cons_tok t r = map_option ((#) t) r"

function tokenize :: "jsstring \<Rightarrow> token list option" where
  "tokenize [] = Some []"
| "tokenize (c # cs) =
     (if json_ws c then tokenize cs
      else if c = 0x7B then cons_tok LBrace (tokenize cs)
      else if c = 0x7D then cons_tok RBrace (tokenize cs)
      else if c = 0x5B then cons_tok LBracket (tokenize cs)
      else if c = 0x5D then cons_tok RBracket (tokenize cs)
      else if c = 0x3A then cons_tok Colon (tokenize cs)
      else if c = 0x2C then cons_tok Comma (tokenize cs)
      else if c = 0x22 then
        (case lex_string cs [] of
           None \<Rightarrow> None
         | Some (s, rest) \<Rightarrow> cons_tok (TString s) (tokenize rest))
      else if number_char c then
        (let lexeme = c # takeWhile number_char cs in
         if valid_number lexeme
         then cons_tok (TNumber lexeme) (tokenize (dropWhile number_char cs))
         else None)
      else if is_letter c then
        (let word = c # takeWhile is_letter cs; rest = dropWhile is_letter cs in
         if word = js ''true'' then cons_tok TTrue (tokenize rest)
         else if word = js ''false'' then cons_tok TFalse (tokenize rest)
         else if word = js ''null'' then cons_tok TNull (tokenize rest)
         else None)
      else None)"
  by pat_completeness auto
termination
  by (relation "measure length")
     (auto simp: length_dropWhile_le less_Suc_eq_le dest: lex_string_length_le)

text \<open>The recogniser: a stack of the containers that are open around the current position.\<close>

datatype ctx = InArray "jsval list" | InObject "(jsstring \<times> jsval) list" jsstring

datatype pstate =
    ExpectValue "ctx list"
  | ArrayStart "ctx list"
  | ArrayNext "jsval list" "ctx list"
  | ObjectStart "ctx list"
  | ObjectKey "(jsstring \<times> jsval) list" "ctx list"
  | ObjectColon "(jsstring \<times> jsval) list" jsstring "ctx list"
  | ObjectNext "(jsstring \<times> jsval) list" "ctx list"
  | Done jsval

fun complete :: "jsval \<Rightarrow> ctx list \<Rightarrow> pstate" where
  "complete v [] = Done v"
| "complete v (InArray es # st) = ArrayNext (es @ [v]) st"
| "complete v (InObject ms k # st) = ObjectNext (obj_put ms k v) st"

fun start_value :: "ctx list \<Rightarrow> token \<Rightarrow> pstate option" where
  "start_value st (TString s) = Some (complete (JStr s) st)"
| "start_value st (TNumber n) = Some (complete (JNum n) st)"
| "start_value st TTrue = Some (complete (JBool True) st)"
| "start_value st TFalse = Some (complete (JBool False) st)"
| "start_value st TNull = Some (complete JNull st)"
| "start_value st LBracket = Some (ArrayStart st)"
| "start_value st LBrace = Some (ObjectStart st)"
| "start_value st _ = None"

fun pstep :: "pstate \<Rightarrow> token \<Rightarrow> pstate option" where
  "pstep (ExpectValue st) t = start_value st t"
| "pstep (ArrayStart st) t =
     (if t = RBracket then Some (complete (JArr []) st) else start_value (InArray [] # st) t)"
| "pstep (ArrayNext es st) t =
     (if t = Comma then Some (ExpectValue (InArray es # st))
      else if t = RBracket then Some (complete (JArr es) st) else None)"
| "pstep (ObjectStart st) t =
     (case t of
        RBrace \<Rightarrow> Some (complete (JObj []) st)
      | TString k \<Rightarrow> Some (ObjectColon [] k st)
      | _ \<Rightarrow> None)"
| "pstep (ObjectKey ms st) t =
     (case t of TString k \<Rightarrow> Some (ObjectColon ms k st) | _ \<Rightarrow> None)"
| "pstep (ObjectColon ms k st) t =
     (if t = Colon then Some (ExpectValue (InObject ms k # st)) else None)"
| "pstep (ObjectNext ms st) t =
     (if t = Comma then Some (ObjectKey ms st)
      else if t = RBrace then Some (complete (JObj ms) st) else None)"
| "pstep (Done v) t = None"

fun prun :: "pstate \<Rightarrow> token list \<Rightarrow> pstate option" where
  "prun s [] = Some s"
| "prun s (t # ts) = (case pstep s t of None \<Rightarrow> None | Some s' \<Rightarrow> prun s' ts)"

definition JSON_parse :: "jsstring \<Rightarrow> jsval option" where
  "JSON_parse text =
     (case tokenize text of
        None \<Rightarrow> None
      | Some ts \<Rightarrow> (case prun (ExpectValue []) ts of Some (Done v) \<Rightarrow> Some v | _ \<Rightarrow> None))"

section \<open>Asynchronous calls\<close>

text \<open>
  An \<open>async\<close> function is run to its end: the value it resolves to or the error it
  rejects with, and the calls it awaited, in order. \<open>None\<close> is a promise that never
  settles. The outcome of each awaited library call is an input of the model.
\<close>

text \<open>
  Errors by kind. \<open>HttpError status statusText\<close> is the \<open>Error\<close> that
  \<open>scrapeWithCheerio\<close> throws with the message \<open>Failed to fetch URL: status statusText\<close>;
  \<open>UserExists\<close> is the error that \<open>registerUser\<close> throws; the others are rejections
  of library calls.
\<close>

datatype error =
    NetworkError
  | HttpError nat jsstring
  | TimeoutError
  | TypeError
  | LaunchError
  | ProtocolError
  | UserExists

datatype call =
    Fetch jsstring
  | ResponseText
  | Launch
  | NewPage
  | SetUserAgent
  | SetExtraHTTPHeaders
  | SetViewport
  | SetJavaScriptEnabled
  | SetRequestInterception
  | Goto jsstring "nat option"
  | WaitForTimeout
  | AutoScroll
  | WaitForSelector jsstring "nat option"
  | Title
  | EvaluateMeta
  | EvaluateBodyText
  | EvaluateLinks
  | EvaluateImages
  | EvaluateSelector jsstring
  | EvaluateContent
  | Content
  | Screenshot
  | Close

type_synonym 'a async = "((error + 'a) \<times> call list) option"

definition resolve :: "'a \<Rightarrow> 'a async" where
  "resolve v = Some (Inr v, [])"

definition throw :: "error \<Rightarrow> 'a async" where
  "throw e = Some (Inl e, [])"

definition await :: "call \<Rightarrow> (error + 'a) option \<Rightarrow> 'a async" where
  "await c outcome = (case outcome of None \<Rightarrow> None | Some r \<Rightarrow> Some (r, [c]))"

text \<open>Sequencing: the rest of the function body runs only when the awaited call resolved.\<close>

definition andThen :: "'a async \<Rightarrow> ('a \<Rightarrow> 'b async) \<Rightarrow> 'b async" where
  "andThen m f =
     (case m of
        None \<Rightarrow> None
      | Some (Inl e, tr) \<Rightarrow> Some (Inl e, tr)
      | Some (Inr v, tr) \<Rightarrow>
          (case f v of None \<Rightarrow> None | Some (r, tr') \<Rightarrow> Some (r, tr @ tr')))"

text \<open>\<open>catch (error) { console.error(...); throw error; }\<close>: the error goes on unchanged.\<close>

definition catch_rethrow :: "'a async \<Rightarrow> 'a async" where
  "catch_rethrow m = m"

text \<open>
  \<open>try { m } finally { fin }\<close>: \<open>fin\<close> runs when \<open>m\<close> has settled, whichever way; an
  error of \<open>fin\<close> replaces the outcome of \<open>m\<close>.
\<close>

definition try_finally :: "'a async \<Rightarrow> unit async \<Rightarrow> 'a async" where
  "try_finally m fin =
     (case m of
        None \<Rightarrow> None
      | Some (r, tr) \<Rightarrow>
          (case fin of
             None \<Rightarrow> None
           | Some (Inl e, tr') \<Rightarrow> Some (Inl e, tr @ tr')
           | Some (Inr u, tr') \<Rightarrow> Some (r, tr @ tr')))"

section \<open>\<open>src/lib/scraping/cheerio.ts\<close>\<close>

text \<open>
  A response of \<open>fetch\<close>: \<open>response.ok\<close> is true for the statuses 200 to 299 (Fetch
  standard); \<open>response.text()\<close> may itself fail while the body is read.
\<close>

record response =
  status :: nat
  statusText :: jsstring
  body_text :: "error + jsstring"

definition response_ok :: "response \<Rightarrow> bool" where
  "response_ok r \<longleftrightarrow> 200 \<le> status r \<and> status r \<le> 299"

type_synonym fetcher = "jsstring \<Rightarrow> (jsstring \<times> jsstring) list \<Rightarrow> error + response"

definition user_agent :: jsstring where
  "user_agent =
     js ''Mozilla/5.0 (Windows NT 10.0; Win64; x64) AppleWebKit/537.36 (KHTML, like Gecko) Chrome/91.0.4472.124 Safari/537.36''"

definition sel_meta_description :: jsstring where
  "sel_meta_description = js ''meta[name='' @ [0x22] @ js ''description'' @ [0x22] @ js '']''"

definition sel_json_ld :: jsstring where
  "sel_json_ld = js ''script[type='' @ [0x22] @ js ''application/ld+json'' @ [0x22] @ js '']''"

definition cheerio_link :: "element \<Rightarrow> jsval" where
  "cheerio_link el =
     JObj [(js ''href'', opt_str (attr [el] (js ''href''))),
           (js ''text'', JStr (trim (text_of [el])))]"

definition cheerio_image :: "element \<Rightarrow> jsval" where
  "cheerio_image el =
     JObj [(js ''src'', opt_str (attr [el] (js ''src''))),
           (js ''alt'', JStr (or_else (attr [el] (js ''alt'')) []))]"

text \<open>The record built from the loaded document (lines 26 to 57 of \<open>scrapeWithCheerio\<close>).\<close>

definition cheerio_record :: "cheerio \<Rightarrow> jsstring \<Rightarrow> jsval" where
  "cheerio_record q html =
     (let title = text_of (q (js ''title''));
          metaDescription = or_else (attr (q sel_meta_description) (js ''content'')) [];
          bodyText = normalizeText (text_of (q (js ''body'')));
          links = map cheerio_link (q (js ''a''));
          images = map cheerio_image (q (js ''img''))
      in JObj [(js ''title'', JStr title),
               (js ''metaDescription'', JStr metaDescription),
               (js ''bodyText'', JStr bodyText),
               (js ''links'', JArr links),
               (js ''images'', JArr images),
               (js ''html'', JStr html)])"

definition scrapeWithCheerio ::
  "fetcher \<Rightarrow> (jsstring \<Rightarrow> cheerio) \<Rightarrow> jsstring \<Rightarrow> jsstring option \<Rightarrow> jsval async" where
  "scrapeWithCheerio fetch load url waitFor =
     catch_rethrow
       (andThen (await (Fetch url) (Some (fetch url [(js ''User-Agent'', user_agent)])))
          (\<lambda>response.
             if \<not> response_ok response
             then throw (HttpError (status response) (statusText response))
             else andThen (await ResponseText (Some (body_text response)))
                    (\<lambda>html. resolve (cheerio_record (load html) html))))"

text \<open>
  The \<open>each\<close> loop of \<open>extractStructuredData\<close>: a block that parses is pushed, a block
  that does not is logged and skipped.
\<close>

fun each_json_ld :: "selection \<Rightarrow> jsval list \<Rightarrow> jsval list" where
  "each_json_ld [] structuredData = structuredData"
| "each_json_ld (el # els) structuredData =
     (case JSON_parse (or_else (html_of [el]) (js ''{}'')) of
        Some json \<Rightarrow> each_json_ld els (structuredData @ [json])
      | None \<Rightarrow> each_json_ld els structuredData)"

definition extractStructuredData :: "(jsstring \<Rightarrow> cheerio) \<Rightarrow> jsstring \<Rightarrow> error + jsval list" where
  "extractStructuredData load html = Inr (each_json_ld (load html sel_json_ld) [])"

section \<open>\<open>src/lib/scraping/puppeteer.ts\<close>\<close>

text \<open>
  What the browser shows to one call: which of the awaited library calls reject and with
  what error (a navigation or selector wait that exceeds its timeout rejects with
  \<open>TimeoutError\<close>), the document that the in-page functions read, and the values of
  \<open>page.content()\<close> and \<open>page.screenshot()\<close>. \<open>scrollHeights n\<close> is
  \<open>document.body.scrollHeight\<close> as read by tick \<open>n\<close> of the scroll timer, and
  \<open>protocolTicks\<close> the number of ticks of that timer that run before the browser
  protocol gives up on a \<open>page.evaluate\<close> call (see \<open>autoScroll\<close> below).
\<close>

record dom =
  querySelectorAll :: "jsstring \<Rightarrow> selection"
  document_title :: jsstring
  body_innerText :: "jsstring option"
  outerHTML :: jsstring

record page =
  rejects :: "call \<Rightarrow> error option"
  document :: dom
  content_value :: jsstring
  screenshot_value :: jsstring
  scrollHeights :: "nat \<Rightarrow> nat"
  protocolTicks :: nat

definition invoke :: "page \<Rightarrow> call \<Rightarrow> 'a \<Rightarrow> 'a async" where
  "invoke env c v = await c (Some (case rejects env c of Some e \<Rightarrow> Inl e | None \<Rightarrow> Inr v))"

text \<open>\<open>page.evaluate(f)\<close>: \<open>f\<close> runs in the page; an exception of \<open>f\<close> rejects the call.\<close>

definition evaluate :: "page \<Rightarrow> call \<Rightarrow> (dom \<Rightarrow> error + 'a) \<Rightarrow> 'a async" where
  "evaluate env c f =
     await c (Some (case rejects env c of Some e \<Rightarrow> Inl e | None \<Rightarrow> f (document env)))"

text \<open>\<open>if (waitFor) await page.waitForSelector(waitFor, { timeout })\<close>\<close>

definition wait_for :: "page \<Rightarrow> jsstring option \<Rightarrow> nat option \<Rightarrow> unit async" where
  "wait_for env waitFor timeout =
     (case waitFor of
        None \<Rightarrow> resolve ()
      | Some sel \<Rightarrow> if sel = [] then resolve () else invoke env (WaitForSelector sel timeout) ())"

text \<open>The in-page functions of \<open>scrapeWithPuppeteer\<close> (lines 44 to 68).\<close>

definition eval_metaDescription :: "dom \<Rightarrow> error + jsval" where
  "eval_metaDescription d =
     (case querySelectorAll d sel_meta_description of
        [] \<Rightarrow> Inr (JStr [])
      | metaTag # _ \<Rightarrow> Inr (getAttribute metaTag (js ''content'')))"

definition eval_bodyText :: "dom \<Rightarrow> error + jsval" where
  "eval_bodyText d =
     (case body_innerText d of
        None \<Rightarrow> Inl TypeError
      | Some t \<Rightarrow> Inr (JStr (normalizeText t)))"

definition eval_links :: "dom \<Rightarrow> error + jsval" where
  "eval_links d =
     Inr (JArr (map (\<lambda>a. JObj [(js ''href'', JStr (href a)),
                               (js ''text'', JStr (trim (innerText a)))])
                    (querySelectorAll d (js ''a''))))"

definition eval_images :: "dom \<Rightarrow> error + jsval" where
  "eval_images d =
     Inr (JArr (map (\<lambda>img. JObj [(js ''src'', JStr (src img)),
                                 (js ''alt'', JStr (or_else (map_of (attributes img) (js ''alt'')) []))])
                    (querySelectorAll d (js ''img''))))"

definition data_uri :: "jsstring \<Rightarrow> jsstring" where
  "data_uri screenshot = js ''data:image/png;base64,'' @ screenshot"

definition scrapeWithPuppeteer_body :: "page \<Rightarrow> jsstring \<Rightarrow> jsstring option \<Rightarrow> nat \<Rightarrow> jsval async" where
  "scrapeWithPuppeteer_body env url waitFor timeout =
     andThen (invoke env NewPage ()) (\<lambda>page.
     andThen (invoke env SetUserAgent ()) (\<lambda>_.
     andThen (invoke env SetViewport ()) (\<lambda>_.
     andThen (invoke env SetJavaScriptEnabled ()) (\<lambda>_.
     andThen (invoke env (Goto url (Some timeout)) ()) (\<lambda>_.
     andThen (wait_for env waitFor (Some timeout)) (\<lambda>_.
     andThen (invoke env Title (document_title (document env))) (\<lambda>title.
     andThen (evaluate env EvaluateMeta eval_metaDescription) (\<lambda>metaDescription.
     andThen (evaluate env EvaluateBodyText eval_bodyText) (\<lambda>bodyText.
     andThen (evaluate env EvaluateLinks eval_links) (\<lambda>links.
     andThen (evaluate env EvaluateImages eval_images) (\<lambda>images.
     andThen (invoke env Content (content_value env)) (\<lambda>html.
     andThen (invoke env Screenshot (screenshot_value env)) (\<lambda>screenshot.
     resolve (JObj [(js ''title'', JStr title),
                    (js ''metaDescription'', metaDescription),
                    (js ''bodyText'', bodyText),
                    (js ''links'', links),
                    (js ''images'', images),
                    (js ''html'', JStr html),
                    (js ''screenshot'', JStr (data_uri screenshot))]))))))))))))))"

text \<open>
  \<open>finally { if (browser) await browser.close(); }\<close>: the variable \<open>browser\<close> is
  assigned exactly when \<open>puppeteer.launch\<close> resolved.
\<close>

definition close_browser :: "page \<Rightarrow> unit async" where
  "close_browser env = (if rejects env Launch = None then invoke env Close () else resolve ())"

definition scrapeWithPuppeteer :: "page \<Rightarrow> jsstring \<Rightarrow> jsstring option \<Rightarrow> nat \<Rightarrow> jsval async" where
  "scrapeWithPuppeteer env url waitFor timeout =
     try_finally
       (catch_rethrow
          (andThen (invoke env Launch ()) (\<lambda>browser.
             scrapeWithPuppeteer_body env url waitFor timeout)))
       (close_browser env)"

text \<open>The loop over \<open>Object.entries(selectors)\<close> of \<open>extractContentWithPuppeteer\<close>.\<close>

definition eval_selector :: "jsstring \<Rightarrow> dom \<Rightarrow> error + jsval" where
  "eval_selector sel d =
     Inr (JArr (map (\<lambda>el. JStr (trim (textContent el))) (querySelectorAll d sel)))"

fun extract_loop :: "page \<Rightarrow> (jsstring \<times> jsstring) list \<Rightarrow> (jsstring \<times> jsval) list \<Rightarrow> jsval async" where
  "extract_loop env [] result = resolve (JObj result)"
| "extract_loop env ((key, selector) # rest) result =
     andThen (evaluate env (EvaluateSelector selector) (eval_selector selector))
       (\<lambda>v. extract_loop env rest (obj_put result key v))"

definition extractContentWithPuppeteer ::
  "page \<Rightarrow> jsstring \<Rightarrow> (jsstring \<times> jsstring) list \<Rightarrow> jsstring option \<Rightarrow> jsval async" where
  "extractContentWithPuppeteer env url selectors waitFor =
     try_finally
       (catch_rethrow
          (andThen (invoke env Launch ()) (\<lambda>browser.
           andThen (invoke env NewPage ()) (\<lambda>page.
           andThen (invoke env SetUserAgent ()) (\<lambda>_.
           andThen (invoke env (Goto url None) ()) (\<lambda>_.
           andThen (wait_for env waitFor None) (\<lambda>_.
           extract_loop env selectors [])))))))
       (close_browser env)"

text \<open>
  The handler installed by \<open>page.on('request', ...)\<close>. \<open>request.continue(overrides)\<close>
  sends the request on; headers given in the overrides replace the request's own.
\<close>

record request =
  resourceType :: jsstring
  headers :: "(jsstring \<times> jsstring) list"

datatype continuation = Continue "(jsstring \<times> jsstring) list option"

definition on_request :: "request \<Rightarrow> continuation" where
  "on_request request =
     (if resourceType request = js ''document'' \<or> resourceType request = js ''xhr''
      then Continue (Some (obj_put (headers request) (js ''Referer'') (js ''https://www.google.com/'')))
      else Continue None)"

fun sent_headers :: "request \<Rightarrow> continuation \<Rightarrow> (jsstring \<times> jsstring) list" where
  "sent_headers request (Continue None) = headers request"
| "sent_headers request (Continue (Some hs)) = hs"

text \<open>
  \<open>autoScroll\<close>: every 200 ms the timer reads the scroll height, scrolls by \<open>distance\<close>
  and stops once the distance scrolled has reached the height just read. The promise
  resolves when the timer stops. The loop has no bound of its own. The \<open>setTimeout\<close>
  with an empty callback inside the tick delays nothing and is left out.
\<close>

definition distance :: nat where
  "distance = 100"

text \<open>
  Modelled from the spec: the overall timeout that sections 4.2 and 5 put on the scroll is
  not in the sources. The one that applies is the protocol timeout of the package
  \<open>puppeteer\<close> (180 s unless \<open>puppeteer.launch\<close> is given another, which the source does
  not do), after which the awaited \<open>page.evaluate\<close> is rejected with a
  \<open>ProtocolError\<close> while the timer in the page goes on until the browser is closed.
  \<open>scroll_loop\<close> runs the timer for the ticks that fit before that: its result is the
  number of ticks after which the timer stopped, or \<open>None\<close> when it was still running.
\<close>

fun scroll_loop :: "(nat \<Rightarrow> nat) \<Rightarrow> nat \<Rightarrow> nat \<Rightarrow> nat \<Rightarrow> nat option" where
  "scroll_loop heights 0 tick totalHeight = None"
| "scroll_loop heights (Suc budget) tick totalHeight =
     (if totalHeight + distance \<ge> heights tick then Some (Suc tick)
      else scroll_loop heights budget (Suc tick) (totalHeight + distance))"

definition autoScroll :: "page \<Rightarrow> unit async" where
  "autoScroll env =
     await AutoScroll
       (Some (case rejects env AutoScroll of
                Some e \<Rightarrow> Inl e
              | None \<Rightarrow>
                  (case scroll_loop (scrollHeights env) (protocolTicks env) 0 0 of
                     Some ticks \<Rightarrow> Inr ()
                   | None \<Rightarrow> Inl ProtocolError)))"

definition eval_content :: "dom \<Rightarrow> error + jsval" where
  "eval_content d =
     (case body_innerText d of
        None \<Rightarrow> Inl TypeError
      | Some t \<Rightarrow>
          Inr (JObj [(js ''title'', JStr (document_title d)),
                     (js ''metaDescription'',
                        JStr (or_else (attr (querySelectorAll d sel_meta_description) (js ''content'')) [])),
                     (js ''bodyText'', JStr (normalizeText t)),
                     (js ''html'', JStr (outerHTML d))]))"

text \<open>\<open>{ ...content, screenshot: ... }\<close>\<close>

definition with_screenshot :: "jsval \<Rightarrow> jsstring \<Rightarrow> jsval" where
  "with_screenshot content screenshot =
     (case content of
        JObj ps \<Rightarrow> JObj (obj_put ps (js ''screenshot'') (JStr (data_uri screenshot)))
      | _ \<Rightarrow> JObj [(js ''screenshot'', JStr (data_uri screenshot))])"

definition bypassAntiScrapingMeasures :: "page \<Rightarrow> jsstring \<Rightarrow> jsstring option \<Rightarrow> jsval async" where
  "bypassAntiScrapingMeasures env url waitFor =
     try_finally
       (catch_rethrow
          (andThen (invoke env Launch ()) (\<lambda>browser.
           andThen (invoke env NewPage ()) (\<lambda>page.
           andThen (invoke env SetUserAgent ()) (\<lambda>_.
           andThen (invoke env SetExtraHTTPHeaders ()) (\<lambda>_.
           andThen (invoke env SetViewport ()) (\<lambda>_.
           andThen (invoke env SetJavaScriptEnabled ()) (\<lambda>_.
           andThen (invoke env SetRequestInterception ()) (\<lambda>_.
           andThen (invoke env (Goto url (Some 60000)) ()) (\<lambda>_.
           andThen (invoke env WaitForTimeout ()) (\<lambda>_.
           andThen (autoScroll env) (\<lambda>_.
           andThen (wait_for env waitFor (Some 30000)) (\<lambda>_.
           andThen (evaluate env EvaluateContent eval_content) (\<lambda>content.
           andThen (invoke env Screenshot (screenshot_value env)) (\<lambda>screenshot.
           resolve (with_screenshot content screenshot))))))))))))))))
       (close_browser env)"

section \<open>\<open>src/lib/cache/memoryCache.ts\<close>\<close>

text \<open>
  Modelled from the spec: the class \<open>LRUCache\<close> that \<open>memoryCache.ts\<close> instantiates
  belongs to the package \<open>lru-cache\<close>, which the sources import and do not contain.
  Section 4.4 of the spec gives the store a fixed maximum item count, eviction of the
  least recently used entry on insertion beyond capacity, and a time to live per entry
  (the default or the one given to \<open>set\<close>) after which the entry is invisible to
  \<open>get\<close>. The entries are kept from the least to the most recently used. What
  section 4.4 leaves open follows the package: \<open>set\<close> of \<open>undefined\<close> deletes the
  key; an entry is stale when its time to live and its start time are both non-zero and
  more than the time to live has passed since the start; \<open>set\<close> records the start time
  only for a non-zero time to live, so an entry set with a time to live of 0 never
  becomes stale.
\<close>

record entry =
  ekey :: jsstring
  evalue :: jsval
  ettl :: int
  estart :: int

type_synonym lru = "entry list"

definition cache_max :: nat where
  "cache_max = 100"

definition cache_ttl :: int where
  "cache_ttl = 1000 * 60 * 60"

definition isStale :: "entry \<Rightarrow> int \<Rightarrow> bool" where
  "isStale e now \<longleftrightarrow> ettl e \<noteq> 0 \<and> estart e \<noteq> 0 \<and> now - estart e > ettl e"

definition lru_delete :: "jsstring \<Rightarrow> lru \<Rightarrow> lru" where
  "lru_delete k c = filter (\<lambda>e. ekey e \<noteq> k) c"

definition lru_set :: "jsstring \<Rightarrow> jsval \<Rightarrow> int option \<Rightarrow> int \<Rightarrow> lru \<Rightarrow> lru" where
  "lru_set k v ttl_option now c =
     (if v = JUndefined then lru_delete k c
      else
        let ttl = (case ttl_option of None \<Rightarrow> cache_ttl | Some t \<Rightarrow> t);
            e = \<lparr>ekey = k, evalue = v, ettl = ttl, estart = (if ttl \<noteq> 0 then now else 0)\<rparr>
        in if k \<in> set (map ekey c) then lru_delete k c @ [e]
           else (if length c = cache_max then tl c else c) @ [e])"

definition lru_get :: "jsstring \<Rightarrow> int \<Rightarrow> lru \<Rightarrow> jsval \<times> lru" where
  "lru_get k now c =
     (case find (\<lambda>e. ekey e = k) c of
        None \<Rightarrow> (JUndefined, c)
      | Some e \<Rightarrow>
          if isStale e now then (JUndefined, lru_delete k c)
          else (evalue e, lru_delete k c @ [e]))"

text \<open>
  The module's functions. The module-level \<open>cache\<close> is passed and returned; \<open>now\<close> is
  the clock reading of the call.
\<close>

definition getCacheItem :: "jsstring \<Rightarrow> int \<Rightarrow> lru \<Rightarrow> jsval \<times> lru" where
  "getCacheItem key now cache = lru_get key now cache"

definition setCacheItem :: "jsstring \<Rightarrow> jsval \<Rightarrow> int option \<Rightarrow> int \<Rightarrow> lru \<Rightarrow> lru" where
  "setCacheItem key v ttl now cache = lru_set key v ttl now cache"

definition removeCacheItem :: "jsstring \<Rightarrow> lru \<Rightarrow> lru" where
  "removeCacheItem key cache = lru_delete key cache"

definition clearCache :: "lru \<Rightarrow> lru" where
  "clearCache cache = []"

definition getCacheStats :: "lru \<Rightarrow> nat \<times> nat \<times> nat" where
  "getCacheStats cache = (length cache, cache_max, length cache)"

section \<open>\<open>src/lib/auth/auth.ts\<close>\<close>

definition USERS_CACHE_PREFIX :: jsstring where
  "USERS_CACHE_PREFIX = js ''auth:user:''"

definition SESSIONS_CACHE_PREFIX :: jsstring where
  "SESSIONS_CACHE_PREFIX = js ''auth:session:''"

text \<open>
  What \<open>crypto\<close> and \<open>Date\<close> give to one call of \<open>registerUser\<close>: the random salt and
  identifier, the key derivation, and the current date.
\<close>

record sources =
  randomSalt :: jsstring
  pbkdf2 :: "jsstring \<Rightarrow> jsstring \<Rightarrow> jsstring"
  randomUUID :: jsstring
  isoDate :: jsstring

text \<open>
  \<open>const { [name]: _, ...rest } = value\<close>: the own enumerable properties of the value
  but \<open>name\<close>. A string or an array has its indices as properties, a number or a
  boolean none.
\<close>

fun decimal :: "nat \<Rightarrow> jsstring" where
  "decimal n =
     (if n < 10 then [of_nat (48 + n)] else decimal (n div 10) @ [of_nat (48 + n mod 10)])"

definition indexed :: "jsval list \<Rightarrow> (jsstring \<times> jsval) list" where
  "indexed xs = map (\<lambda>i. (decimal i, xs ! i)) [0..<length xs]"

definition own_properties :: "jsval \<Rightarrow> (jsstring \<times> jsval) list" where
  "own_properties v =
     (case v of
        JObj ps \<Rightarrow> ps
      | JArr xs \<Rightarrow> indexed xs
      | JStr s \<Rightarrow> indexed (map (\<lambda>c. JStr [c]) s)
      | _ \<Rightarrow> [])"

definition rest_without :: "jsstring \<Rightarrow> jsval \<Rightarrow> jsval" where
  "rest_without name v = JObj (filter (\<lambda>p. fst p \<noteq> name) (own_properties v))"

definition registerUser ::
  "sources \<Rightarrow> jsstring \<Rightarrow> jsstring \<Rightarrow> int \<Rightarrow> lru \<Rightarrow> (error + jsval) \<times> lru" where
  "registerUser env email password now cache =
     (case getCacheItem (USERS_CACHE_PREFIX @ email) now cache of
        (existingUser, cache1) \<Rightarrow>
          if truthy existingUser then (Inl UserExists, cache1)
          else
            let salt = randomSalt env;
                passwordHash = pbkdf2 env password salt;
                user = JObj [(js ''id'', JStr (randomUUID env)),
                             (js ''email'', JStr email),
                             (js ''passwordHash'', JStr (salt @ js '':'' @ passwordHash)),
                             (js ''createdAt'', JStr (isoDate env))];
                cache2 = setCacheItem (USERS_CACHE_PREFIX @ email) user
                           (Some (30 * 24 * 60 * 60 * 1000)) now cache1
            in (Inr (rest_without (js ''passwordHash'') user), cache2))"

text \<open>
  \<open>getCurrentUser\<close>: \<open>cookie\<close> is \<open>request.cookies.get('session')?.value\<close>;
  \<open>toString\<close> is the conversion that the template literal applies to \<open>session.email\<close>.
\<close>

definition getCurrentUser ::
  "(jsval \<Rightarrow> jsstring) \<Rightarrow> jsstring option \<Rightarrow> int \<Rightarrow> lru \<Rightarrow> jsval \<times> lru" where
  "getCurrentUser toString cookie now cache =
     (case cookie of
        None \<Rightarrow> (JNull, cache)
      | Some sessionToken \<Rightarrow>
          if sessionToken = [] then (JNull, cache)
          else
            (case getCacheItem (SESSIONS_CACHE_PREFIX @ sessionToken) now cache of
               (session, cache1) \<Rightarrow>
                 if \<not> truthy session then (JNull, cache1)
                 else
                   (case getCacheItem
                           (USERS_CACHE_PREFIX @ toString (get_prop session (js ''email'')))
                           now cache1 of
                      (user, cache2) \<Rightarrow>
                        if \<not> truthy user then (JNull, cache2)
                        else (rest_without (js ''passwordHash'') user, cache2))))"

text \<open>
  \<open>logoutUser\<close>, as far as the cache goes: \<open>setCacheItem(..., null, 0)\<close> under the
  comment \<open>Remove the session\<close>. The response it builds is left out.
\<close>

definition logoutUser :: "jsstring option \<Rightarrow> int \<Rightarrow> lru \<Rightarrow> lru" where
  "logoutUser cookie now cache =
     (case cookie of
        None \<Rightarrow> cache
      | Some sessionToken \<Rightarrow>
          if sessionToken = [] then cache
          else setCacheItem (SESSIONS_CACHE_PREFIX @ sessionToken) JNull (Some 0) now cache)"

section \<open>Example inputs\<close>

text \<open>
  The example of section 8 of the spec, \<open><title>Hi</title><body>  a   b  </body>\<close>, as
  the selector engine presents it, served with a given status; and a document whose
  JSON-LD script blocks have the given texts.
\<close>

definition example_element :: "jsstring \<Rightarrow> element" where
  "example_element t =
     \<lparr>attributes = [], textContent = t, innerHTML = t, innerText = t, href = [], src = []\<rparr>"

definition example_load :: "jsstring \<Rightarrow> cheerio" where
  "example_load html sel =
     (if sel = js ''title'' then [example_element (js ''Hi'')]
      else if sel = js ''body'' then [example_element (js ''  a   b  '')]
      else [])"

definition example_html :: jsstring where
  "example_html = js ''<title>Hi</title><body>  a   b  </body>''"

definition example_fetch :: "nat \<Rightarrow> fetcher" where
  "example_fetch code url hs = Inr \<lparr>status = code, statusText = [], body_text = Inr example_html\<rparr>"

definition example_blocks :: "jsstring list \<Rightarrow> jsstring \<Rightarrow> cheerio" where
  "example_blocks texts html sel = (if sel = sel_json_ld then map example_element texts else [])"

text \<open>
  A page that shows the same document to the browser, where the given calls reject and
  the scroll height evolves as given, with 900 ticks of 200 ms before the protocol timeout;
  a rejection with \<open>TimeoutError\<close> at one call.
\<close>

definition example_dom :: dom where
  "example_dom =
     \<lparr>querySelectorAll = example_load example_html, document_title = js ''Hi'',
      body_innerText = Some (js ''  a   b  ''), outerHTML = example_html\<rparr>"

definition example_page :: "(call \<Rightarrow> error option) \<Rightarrow> (nat \<Rightarrow> nat) \<Rightarrow> page" where
  "example_page failing heights =
     \<lparr>rejects = failing, document = example_dom, content_value = example_html,
      screenshot_value = js ''iVBORw0KGgo='', scrollHeights = heights, protocolTicks = 900\<rparr>"

definition timeout_at :: "call \<Rightarrow> call \<Rightarrow> error option" where
  "timeout_at c c' = (if c' = c then Some TimeoutError else None)"

text \<open>
  A page whose \<open>meta[name="description"]\<close> element has no \<open>content\<close> attribute,
  and a document with two \<open>title\<close> elements (as with a title inside an inline SVG).
\<close>

definition bare_meta :: element where
  "bare_meta =
     \<lparr>attributes = [(js ''name'', js ''description'')], textContent = [], innerHTML = [],
      innerText = [], href = [], src = []\<rparr>"

definition bare_meta_page :: page where
  "bare_meta_page =
     \<lparr>rejects = (\<lambda>c. None),
      document = \<lparr>querySelectorAll = (\<lambda>sel. if sel = sel_meta_description then [bare_meta] else []),
                  document_title = js ''Hi'', body_innerText = Some (js ''a b''), outerHTML = []\<rparr>,
      content_value = [], screenshot_value = [], scrollHeights = (\<lambda>n. 0),
      protocolTicks = 900\<rparr>"

definition two_titles :: cheerio where
  "two_titles sel =
     (if sel = js ''title'' then [example_element (js ''Page''), example_element (js ''Logo'')] else [])"

text \<open>
  One more key than the cache holds, inserted in order at time 0: the keys are
  \<open>k\<close>, \<open>kk\<close>, \<open>kkk\<close> and so on. \<open>insert_all\<close> is a sequence of
  \<open>setCacheItem(key, value)\<close> calls with the default time to live.
\<close>

fun insert_all :: "(jsstring \<times> jsval \<times> int) list \<Rightarrow> lru \<Rightarrow> lru" where
  "insert_all [] cache = cache"
| "insert_all ((key, v, now) # items) cache = insert_all items (setCacheItem key v None now cache)"

definition example_items :: "(jsstring \<times> jsval \<times> int) list" where
  "example_items = map (\<lambda>i. (replicate (Suc i) 0x6B, JStr (replicate (Suc i) 0x6B), 0)) [0..<101]"

text \<open>Two entries, \<open>a\<close> older than \<open>b\<close>.\<close>

definition entry_a :: entry where
  "entry_a = \<lparr>ekey = js ''a'', evalue = JStr (js ''1''), ettl = cache_ttl, estart = 5\<rparr>"

definition entry_b :: entry where
  "entry_b = \<lparr>ekey = js ''b'', evalue = JStr (js ''2''), ettl = cache_ttl, estart = 6\<rparr>"

text \<open>
  One registered user and one session, as \<open>loginUser\<close> stores it; the shape of the
  \<open>User\<close> interface; a cache in which every entry under the user prefix has that shape.
\<close>

definition is_User :: "jsval \<Rightarrow> bool" where
  "is_User v \<longleftrightarrow>
     (case v of
        JObj ps \<Rightarrow> map fst ps = [js ''id'', js ''email'', js ''passwordHash'', js ''createdAt'']
      | _ \<Rightarrow> False)"

definition users_wellformed :: "lru \<Rightarrow> bool" where
  "users_wellformed cache =
     list_all (\<lambda>e. if take (length USERS_CACHE_PREFIX) (ekey e) = USERS_CACHE_PREFIX
                    then is_User (evalue e) else True) cache"

definition example_sources :: sources where
  "example_sources =
     \<lparr>randomSalt = js ''5a17'', pbkdf2 = (\<lambda>password salt. js ''c0ffee''),
      randomUUID = js ''7d444840-9dc0-11d1-b245-5ffdce74fad2'',
      isoDate = js ''2024-01-01T00:00:00.000Z''\<rparr>"

definition example_toString :: "jsval \<Rightarrow> jsstring" where
  "example_toString v = (case v of JStr s \<Rightarrow> s | _ \<Rightarrow> js ''undefined'')"

definition example_session :: jsval where
  "example_session =
     JObj [(js ''userId'', JStr (js ''7d444840-9dc0-11d1-b245-5ffdce74fad2'')),
           (js ''email'', JStr (js ''a@b.c'')),
           (js ''createdAt'', JStr (js ''2024-01-01T00:00:01.000Z''))]"

definition example_user :: jsval where
  "example_user =
     JObj [(js ''id'', JStr (js ''7d444840-9dc0-11d1-b245-5ffdce74fad2'')),
           (js ''email'', JStr (js ''a@b.c'')),
           (js ''createdAt'', JStr (js ''2024-01-01T00:00:00.000Z''))]"

definition example_cache :: lru where
  "example_cache =
     setCacheItem (SESSIONS_CACHE_PREFIX @ js ''f00d'') example_session
       (Some (7 * 24 * 60 * 60 * 1000)) 1
       (snd (registerUser example_sources (js ''a@b.c'') (js ''secret'') 0 []))"

section \<open>Static scraping: whitespace, status, structured data\<close>

subsection \<open>Whitespace collapsing\<close>

lemma replace_ws_Nil_iff: "replace_ws s = [] \<longleftrightarrow> s = []"
  by (cases s) auto

lemma hd_replace_ws: "s \<noteq> [] \<Longrightarrow> \<not> isWhiteSpace (hd s) \<Longrightarrow> hd (replace_ws s) = hd s"
  by (cases s) auto

lemma last_replace_ws:
  "s \<noteq> [] \<Longrightarrow> \<not> isWhiteSpace (last s) \<Longrightarrow> last (replace_ws s) = last s"
proof (induction s rule: replace_ws.induct)
  case 1
  then show ?case by simp
next
  case (2 c cs)
  show ?case
  proof (cases "isWhiteSpace c")
    case True
    with "2.prems" have ne: "cs \<noteq> []" and l: "\<not> isWhiteSpace (last cs)"
      by (auto split: if_splits)
    have mem: "last cs \<in> set cs" using ne by simp
    have d: "dropWhile isWhiteSpace cs \<noteq> []"
      using mem l by (auto simp: dropWhile_eq_Nil_conv)
    have ld: "last (dropWhile isWhiteSpace cs) = last cs"
      using d by (metis last_appendR takeWhile_dropWhile_id)
    have r: "replace_ws (dropWhile isWhiteSpace cs) \<noteq> []"
      using d by (simp only: replace_ws_Nil_iff not_False_eq_True)
    have "last (replace_ws (dropWhile isWhiteSpace cs)) = last cs"
      using "2.IH"(1)[OF True d] ld l by simp
    then show ?thesis using True r ne by simp
  next
    case False
    show ?thesis
    proof (cases "cs = []")
      case True
      then show ?thesis using False by simp
    next
      case ne: False
      with "2.prems" have "\<not> isWhiteSpace (last cs)" by simp
      from "2.IH"(2)[OF False ne this] show ?thesis using False ne
        by (simp add: replace_ws_Nil_iff)
    qed
  qed
qed

lemma replace_ws_only_spaces: "c \<in> set (replace_ws s) \<Longrightarrow> isWhiteSpace c \<Longrightarrow> c = 0x20"
  by (induction s rule: replace_ws.induct) (auto split: if_splits)

lemma replace_ws_no_run:
  "successively (\<lambda>a b. \<not> (isWhiteSpace a \<and> isWhiteSpace b)) (replace_ws s)"
proof (induction s rule: replace_ws.induct)
  case 1
  then show ?case by simp
next
  case (2 c cs)
  show ?case
  proof (cases "isWhiteSpace c")
    case True
    let ?d = "dropWhile isWhiteSpace cs"
    have "?d \<noteq> [] \<Longrightarrow> \<not> isWhiteSpace (hd (replace_ws ?d))"
      using hd_dropWhile[of isWhiteSpace cs] by (simp add: hd_replace_ws)
    then show ?thesis using True "2.IH"(1)[OF True]
      by (auto simp: successively_Cons replace_ws_Nil_iff)
  next
    case False
    then show ?thesis using "2.IH"(2)[OF False]
      by (auto simp: successively_Cons)
  qed
qed

lemma successively_nth:
  "successively P xs \<Longrightarrow> Suc i < length xs \<Longrightarrow> P (xs ! i) (xs ! Suc i)"
proof (induction xs arbitrary: i)
  case Nil
  then show ?case by simp
next
  case (Cons x xs)
  then show ?case
    by (cases i; cases xs) (auto simp: successively_Cons)
qed

lemma trim_ends:
  assumes ne: "trim s \<noteq> []"
  shows "\<not> isWhiteSpace (hd (trim s)) \<and> \<not> isWhiteSpace (last (trim s))"
proof -
  let ?d = "dropWhile isWhiteSpace s"
  let ?e = "dropWhile isWhiteSpace (rev ?d)"
  have e: "?e \<noteq> []" using ne by (simp add: trim_def)
  have l: "\<not> isWhiteSpace (last (trim s))"
    using e hd_dropWhile[of isWhiteSpace "rev ?d"] by (simp add: trim_def last_rev)
  have dne: "?d \<noteq> []" using e by (cases "?d = []") simp_all
  have hd_d: "\<not> isWhiteSpace (hd ?d)" using dne hd_dropWhile[of isWhiteSpace s] by simp
  have "rev ?d = takeWhile isWhiteSpace (rev ?d) @ ?e" by simp
  then have "?d = rev ?e @ rev (takeWhile isWhiteSpace (rev ?d))"
    by (metis rev_append rev_rev_ident)
  then have "hd ?d = hd (rev ?e)" using e by (metis hd_append2 rev_is_Nil_conv)
  then show ?thesis using hd_d l by (simp add: trim_def)
qed

lemma normalizeText_no_run:
  "Suc i < length (normalizeText t) \<Longrightarrow>
     \<not> (isWhiteSpace (normalizeText t ! i) \<and> isWhiteSpace (normalizeText t ! Suc i))"
  unfolding normalizeText_def
  using successively_nth[OF replace_ws_no_run, of i "trim t"] by simp

lemma normalizeText_only_spaces:
  "c \<in> set (normalizeText t) \<Longrightarrow> isWhiteSpace c \<Longrightarrow> c = 0x20"
  unfolding normalizeText_def by (rule replace_ws_only_spaces)

lemma normalizeText_ends:
  assumes "normalizeText t \<noteq> []"
  shows "\<not> isWhiteSpace (hd (normalizeText t)) \<and> \<not> isWhiteSpace (last (normalizeText t))"
proof -
  from assms have ne: "trim t \<noteq> []" by (simp add: normalizeText_def replace_ws_Nil_iff)
  from trim_ends[OF ne] show ?thesis
    using ne by (simp add: normalizeText_def hd_replace_ws last_replace_ws)
qed

subsection \<open>Reading the outcome of a run\<close>

lemma andThen_Inr:
  assumes "andThen m f = Some (Inr v, tr)"
  obtains a tr1 tr2 where "m = Some (Inr a, tr1)" "f a = Some (Inr v, tr2)" "tr = tr1 @ tr2"
  using assms unfolding andThen_def
  by (auto split: option.splits sum.splits prod.splits)

lemma try_finally_Inr:
  assumes "try_finally m fin = Some (Inr v, tr)"
  obtains tr1 tr2 where "m = Some (Inr v, tr1)" "fin = Some (Inr (), tr2)" "tr = tr1 @ tr2"
  using assms unfolding try_finally_def
  by (auto split: option.splits sum.splits prod.splits)

lemma invoke_Inr:
  assumes "invoke env c x = Some (Inr a, tr)"
  obtains "rejects env c = None" "a = x" "tr = [c]"
  using assms unfolding invoke_def await_def
  by (auto split: option.splits)

lemma evaluate_Inr:
  assumes "evaluate env c f = Some (Inr a, tr)"
  obtains "rejects env c = None" "f (document env) = Inr a" "tr = [c]"
  using assms unfolding evaluate_def await_def
  by (auto split: option.splits)

lemma scrapeWithCheerio_cases:
  "scrapeWithCheerio fetch load url waitFor =
     (case fetch url [(js ''User-Agent'', user_agent)] of
        Inl e \<Rightarrow> Some (Inl e, [Fetch url])
      | Inr response \<Rightarrow>
          if \<not> response_ok response
          then Some (Inl (HttpError (status response) (statusText response)), [Fetch url])
          else (case body_text response of
                  Inl e \<Rightarrow> Some (Inl e, [Fetch url, ResponseText])
                | Inr html \<Rightarrow>
                    Some (Inr (cheerio_record (load html) html), [Fetch url, ResponseText])))"
  by (simp add: scrapeWithCheerio_def catch_rethrow_def andThen_def await_def throw_def
      resolve_def split: sum.splits)

lemma scrapeWithPuppeteer_bodyText:
  assumes "scrapeWithPuppeteer env url waitFor timeout = Some (Inr v, tr)"
  shows "\<exists>t. body_innerText (document env) = Some t \<and>
             get_prop v (js ''bodyText'') = JStr (normalizeText t)"
proof -
  from assms obtain tr1 where b: "andThen (invoke env Launch ()) (\<lambda>browser.
             scrapeWithPuppeteer_body env url waitFor timeout) = Some (Inr v, tr1)"
    unfolding scrapeWithPuppeteer_def catch_rethrow_def by (elim try_finally_Inr)
  then obtain tr2 where "scrapeWithPuppeteer_body env url waitFor timeout = Some (Inr v, tr2)"
    by (elim andThen_Inr) simp
  then show ?thesis
    unfolding scrapeWithPuppeteer_body_def
    apply (elim andThen_Inr evaluate_Inr invoke_Inr)
    apply (auto simp: resolve_def eval_bodyText_def js_def split: option.splits)
    done
qed

lemma cheerio_record_bodyText:
  "get_prop (cheerio_record q html) (js ''bodyText'') = JStr (normalizeText (text_of (q (js ''body''))))"
  by (simp add: cheerio_record_def js_def)

lemma cheerio_record_html:
  "get_prop (cheerio_record q html) (js ''html'') = JStr html"
  by (simp add: cheerio_record_def js_def)

lemma cheerio_record_keys:
  "own_keys (cheerio_record q html) =
     [js ''title'', js ''metaDescription'', js ''bodyText'', js ''links'', js ''images'', js ''html'']"
  by (simp add: cheerio_record_def own_keys_def Let_def)

lemma cheerio_record_no_screenshot:
  "\<not> has_own (cheerio_record q html) (js ''screenshot'')"
  by (simp add: cheerio_record_def has_own_def js_def)

lemma example_scrape:
  "scrapeWithCheerio (example_fetch 200) example_load (js ''http://example.org/'') None =
     Some (Inr (cheerio_record (example_load example_html) example_html),
           [Fetch (js ''http://example.org/''), ResponseText])"
  by (simp add: scrapeWithCheerio_cases example_fetch_def response_ok_def)

lemma example_bodyText:
  "get_prop (cheerio_record (example_load example_html) example_html) (js ''bodyText'') = JStr (js ''a b'')"
  by (subst cheerio_record_bodyText)
     (simp add: example_load_def js_def text_of_def example_element_def
      normalizeText_def trim_def isWhiteSpace_def)

lemma example_render:
  "\<exists>v tr. scrapeWithPuppeteer (example_page (\<lambda>c. None) (\<lambda>n. 0)) (js ''http://example.org/'') None 30000
            = Some (Inr v, tr)
         \<and> get_prop v (js ''bodyText'') = JStr (js ''a b'')"
  by (simp add: scrapeWithPuppeteer_def scrapeWithPuppeteer_body_def try_finally_def
      catch_rethrow_def andThen_def invoke_def evaluate_def await_def resolve_def close_browser_def
      wait_for_def example_page_def example_dom_def eval_metaDescription_def eval_bodyText_def
      eval_links_def eval_images_def normalizeText_def trim_def isWhiteSpace_def js_def
      split: list.splits)

text \<open>
  Claim C1. For every input, the \<open>bodyText\<close> field of the record that
  \<open>scrapeWithCheerio\<close> or \<open>scrapeWithPuppeteer\<close> returns has no two consecutive
  spaces, no two adjacent whitespace code units at all, no whitespace other than the
  space, and neither starts nor ends with whitespace.
\<close>

theorem bodyText_whitespace_collapsed:
  assumes "scrapeWithCheerio fetch load url waitFor = Some (Inr v, tr)
         \<or> scrapeWithPuppeteer env url waitFor timeout = Some (Inr v, tr)"
  shows "\<exists>r. get_prop v (js ''bodyText'') = JStr r
           \<and> (\<forall>i. Suc i < length r \<longrightarrow> \<not> (r ! i = 0x20 \<and> r ! Suc i = 0x20))
           \<and> (\<forall>i. Suc i < length r \<longrightarrow> \<not> (isWhiteSpace (r ! i) \<and> isWhiteSpace (r ! Suc i)))
           \<and> (\<forall>c \<in> set r. isWhiteSpace c \<longrightarrow> c = 0x20)
           \<and> (r \<noteq> [] \<longrightarrow> \<not> isWhiteSpace (hd r) \<and> \<not> isWhiteSpace (last r))"
proof -
  have "\<exists>t. get_prop v (js ''bodyText'') = JStr (normalizeText t)"
    using assms
  proof
    assume "scrapeWithCheerio fetch load url waitFor = Some (Inr v, tr)"
    then obtain html where "v = cheerio_record (load html) html"
      by (auto simp: scrapeWithCheerio_cases split: sum.splits if_splits)
    then show ?thesis using cheerio_record_bodyText by blast
  next
    assume "scrapeWithPuppeteer env url waitFor timeout = Some (Inr v, tr)"
    from scrapeWithPuppeteer_bodyText[OF this] show ?thesis by blast
  qed
  then obtain t where t: "get_prop v (js ''bodyText'') = JStr (normalizeText t)" ..
  let ?r = "normalizeText t"
  have sp: "isWhiteSpace 0x20" by (simp add: isWhiteSpace_def)
  have 1: "\<forall>i. Suc i < length ?r \<longrightarrow> \<not> (isWhiteSpace (?r ! i) \<and> isWhiteSpace (?r ! Suc i))"
    using normalizeText_no_run by blast
  have 2: "\<forall>i. Suc i < length ?r \<longrightarrow> \<not> (?r ! i = 0x20 \<and> ?r ! Suc i = 0x20)"
    using 1 sp by metis
  have 3: "\<forall>c \<in> set ?r. isWhiteSpace c \<longrightarrow> c = 0x20"
    using normalizeText_only_spaces by blast
  have 4: "?r \<noteq> [] \<longrightarrow> \<not> isWhiteSpace (hd ?r) \<and> \<not> isWhiteSpace (last ?r)"
    using normalizeText_ends by blast
  from t 1 2 3 4 show ?thesis by blast
qed

theorem bodyText_whitespace_collapsed_witness:
  "scrapeWithCheerio (example_fetch 200) example_load (js ''http://example.org/'') None =
     Some (Inr (cheerio_record (example_load example_html) example_html),
           [Fetch (js ''http://example.org/''), ResponseText])
   \<and> (\<exists>r. get_prop (cheerio_record (example_load example_html) example_html) (js ''bodyText'') = JStr r
          \<and> r = js ''a b''
          \<and> \<not> isWhiteSpace (hd r) \<and> \<not> isWhiteSpace (last r))
   \<and> (\<exists>v tr r. scrapeWithPuppeteer (example_page (\<lambda>c. None) (\<lambda>n. 0)) (js ''http://example.org/'') None 30000
            = Some (Inr v, tr)
          \<and> get_prop v (js ''bodyText'') = JStr r \<and> r = js ''a b''
          \<and> \<not> isWhiteSpace (hd r) \<and> \<not> isWhiteSpace (last r))"
proof -
  have a: "\<exists>r. get_prop (cheerio_record (example_load example_html) example_html) (js ''bodyText'') = JStr r
          \<and> r = js ''a b''
          \<and> \<not> isWhiteSpace (hd r) \<and> \<not> isWhiteSpace (last r)"
    using bodyText_whitespace_collapsed[of "example_fetch 200" example_load "js ''http://example.org/''" None
      "cheerio_record (example_load example_html) example_html"
      "[Fetch (js ''http://example.org/''), ResponseText]"]
    example_scrape example_bodyText
    by (auto simp: js_def)
  obtain v tr where v: "scrapeWithPuppeteer (example_page (\<lambda>c. None) (\<lambda>n. 0)) (js ''http://example.org/'') None 30000
            = Some (Inr v, tr)" and b: "get_prop v (js ''bodyText'') = JStr (js ''a b'')"
    using example_render by blast
  have "js ''a b'' \<noteq> []" by (simp add: js_def)
  with bodyText_whitespace_collapsed[of _ _ "js ''http://example.org/''" None v tr
      "example_page (\<lambda>c. None) (\<lambda>n. 0)" 30000] v b
  have "\<not> isWhiteSpace (hd (js ''a b'')) \<and> \<not> isWhiteSpace (last (js ''a b''))"
    by auto
  with v b have c: "\<exists>v tr r. scrapeWithPuppeteer (example_page (\<lambda>c. None) (\<lambda>n. 0)) (js ''http://example.org/'') None 30000
            = Some (Inr v, tr)
          \<and> get_prop v (js ''bodyText'') = JStr r \<and> r = js ''a b''
          \<and> \<not> isWhiteSpace (hd r) \<and> \<not> isWhiteSpace (last r)"
    by blast
  from example_scrape a c show ?thesis by blast
qed

text \<open>
  Claim C7. \<open>scrapeWithCheerio\<close> always settles. It resolves exactly when the request
  was answered with a status from 200 to 299 and no network error occurred (none on the
  request, none while the body was read); the record then holds the body as \<open>html\<close>
  and has no \<open>screenshot\<close> property. In every other case it rejects with an error.
  Whatever the outcome, exactly one request was sent.
\<close>

theorem scrapeWithCheerio_succeeds_iff_2xx:
  "\<exists>r tr. scrapeWithCheerio fetch load url waitFor = Some (r, tr)
     \<and> ((\<exists>v. r = Inr v) \<longleftrightarrow>
          (\<exists>resp html. fetch url [(js ''User-Agent'', user_agent)] = Inr resp
             \<and> 200 \<le> status resp \<and> status resp \<le> 299 \<and> body_text resp = Inr html))
     \<and> (\<forall>v. r = Inr v \<longrightarrow>
          (\<exists>resp html. fetch url [(js ''User-Agent'', user_agent)] = Inr resp
             \<and> body_text resp = Inr html \<and> get_prop v (js ''html'') = JStr html)
          \<and> \<not> has_own v (js ''screenshot''))
     \<and> count_list tr (Fetch url) = 1
     \<and> (\<forall>c \<in> set tr. c = Fetch url \<or> c = ResponseText)"
proof (cases "fetch url [(js ''User-Agent'', user_agent)]")
  case (Inl e)
  then show ?thesis by (simp add: scrapeWithCheerio_cases)
next
  case (Inr resp)
  show ?thesis
  proof (cases "response_ok resp")
    case False
    with Inr show ?thesis by (auto simp: scrapeWithCheerio_cases response_ok_def)
  next
    case True
    show ?thesis
    proof (cases "body_text resp")
      case (Inl e)
      with Inr True show ?thesis by (simp add: scrapeWithCheerio_cases)
    next
      case r: (Inr html)
      with Inr True show ?thesis
        using cheerio_record_html[of "load html" html]
          cheerio_record_no_screenshot[of "load html" html]
        by (auto simp: scrapeWithCheerio_cases response_ok_def)
    qed
  qed
qed

theorem scrapeWithCheerio_succeeds_iff_2xx_witness:
  "(\<exists>v tr. scrapeWithCheerio (example_fetch 200) example_load (js ''http://example.org/'') None
              = Some (Inr v, tr)
          \<and> get_prop v (js ''html'') = JStr example_html \<and> \<not> has_own v (js ''screenshot'')
          \<and> count_list tr (Fetch (js ''http://example.org/'')) = 1)
   \<and> (\<exists>e tr. scrapeWithCheerio (example_fetch 404) example_load (js ''http://example.org/'') None
              = Some (Inl e, tr)
          \<and> count_list tr (Fetch (js ''http://example.org/'')) = 1)"
proof -
  have left_or_right: "(\<forall>v. r \<noteq> Inr v) \<Longrightarrow> \<exists>e. r = Inl e" for r :: "error + jsval"
    by (cases r) auto
  show ?thesis
    using scrapeWithCheerio_succeeds_iff_2xx[of "example_fetch 200" example_load "js ''http://example.org/''" None]
      scrapeWithCheerio_succeeds_iff_2xx[of "example_fetch 404" example_load "js ''http://example.org/''" None]
    by (auto simp: example_fetch_def dest: left_or_right)
qed

subsection \<open>Structured data\<close>

text \<open>
  The spec's reading of \<open>structuredData\<close>: the blocks whose own text is valid JSON,
  parsed, in document order.
\<close>

definition valid_blocks :: "selection \<Rightarrow> jsval list" where
  "valid_blocks blocks = List.map_filter (\<lambda>el. JSON_parse (innerHTML el)) blocks"

lemma JSON_parse_empty_object: "JSON_parse (js ''{}'') = Some (JObj [])"
  by (simp add: JSON_parse_def js_def json_ws_def cons_tok_def)

lemma JSON_parse_empty_text: "JSON_parse [] = None"
  by (simp add: JSON_parse_def)

lemma each_json_ld_acc:
  "each_json_ld els acc =
     acc @ List.map_filter (\<lambda>el. if innerHTML el = [] then Some (JObj []) else JSON_parse (innerHTML el)) els"
proof (induction els arbitrary: acc)
  case Nil
  then show ?case by (simp add: List.map_filter_simps)
next
  case (Cons el els)
  have "JSON_parse (or_else (html_of [el]) (js ''{}'')) =
          (if innerHTML el = [] then Some (JObj []) else JSON_parse (innerHTML el))"
    by (simp add: or_else_def html_of_def JSON_parse_empty_object)
  then show ?case using Cons.IH
    by (simp add: List.map_filter_simps split: option.splits)
qed

lemma JSON_parse_example_array: "JSON_parse (js ''[1, 2]'') = Some (JArr [JNum (js ''1''), JNum (js ''2'')])"
  by code_simp
lemma JSON_parse_example_open_brace: "JSON_parse (js ''{bad'') = None"
  by code_simp
lemma JSON_parse_example_word: "JSON_parse (js ''tru'') = None"
  by code_simp

text \<open>
  Claim C2, as stated, fails on a document with one empty JSON-LD block: the empty text is
  not valid JSON, yet the result holds an empty object for it, because the code parses
  \<open>{}\<close> in place of an empty block.
\<close>

theorem extractStructuredData_empty_block_counterexample:
  "extractStructuredData (example_blocks [[]]) [] = Inr [JObj []]
   \<and> valid_blocks (example_blocks [[]] [] sel_json_ld) = []
   \<and> extractStructuredData (example_blocks [[]]) []
     \<noteq> Inr (valid_blocks (example_blocks [[]] [] sel_json_ld))"
  by (simp add: extractStructuredData_def example_blocks_def valid_blocks_def
      List.map_filter_simps example_element_def html_of_def or_else_def
      JSON_parse_empty_object JSON_parse_empty_text)

text \<open>
  Claim C2, amended. \<open>extractStructuredData\<close> never raises; it returns, in document
  order, the parsed value of every non-empty block whose text is valid JSON and an empty
  object for every empty block, and omits every other block. For a document without
  empty blocks this is exactly the list of its valid blocks.
\<close>

theorem extractStructuredData_blocks:
  "extractStructuredData load html =
     Inr (List.map_filter
            (\<lambda>el. if innerHTML el = [] then Some (JObj []) else JSON_parse (innerHTML el))
            (load html sel_json_ld))
   \<and> ((\<forall>el \<in> set (load html sel_json_ld). innerHTML el \<noteq> []) \<longrightarrow>
        extractStructuredData load html = Inr (valid_blocks (load html sel_json_ld)))"
proof -
  have a: "extractStructuredData load html =
     Inr (List.map_filter
            (\<lambda>el. if innerHTML el = [] then Some (JObj []) else JSON_parse (innerHTML el))
            (load html sel_json_ld))"
    by (simp add: extractStructuredData_def each_json_ld_acc)
  have "List.map_filter
            (\<lambda>el. if innerHTML el = [] then Some (JObj []) else JSON_parse (innerHTML el)) els
        = valid_blocks els" if "\<forall>el \<in> set els. innerHTML el \<noteq> []" for els
    using that
    by (induction els) (simp_all add: valid_blocks_def List.map_filter_simps split: option.splits)
  with a show ?thesis by simp
qed

theorem extractStructuredData_blocks_witness:
  "extractStructuredData (example_blocks [js ''{}'', js ''{bad'', js ''[1, 2]'', js ''tru'']) []
     = Inr (valid_blocks (example_blocks [js ''{}'', js ''{bad'', js ''[1, 2]'', js ''tru''] [] sel_json_ld))
   \<and> valid_blocks (example_blocks [js ''{}'', js ''{bad'', js ''[1, 2]'', js ''tru''] [] sel_json_ld)
     = [JObj [], JArr [JNum (js ''1''), JNum (js ''2'')]]"
proof -
  have ne: "\<forall>el \<in> set (example_blocks [js ''{}'', js ''{bad'', js ''[1, 2]'', js ''tru''] [] sel_json_ld).
              innerHTML el \<noteq> []"
    by (simp add: example_blocks_def example_element_def js_def)
  have v: "valid_blocks (example_blocks [js ''{}'', js ''{bad'', js ''[1, 2]'', js ''tru''] [] sel_json_ld)
             = [JObj [], JArr [JNum (js ''1''), JNum (js ''2'')]]"
    by (simp add: valid_blocks_def example_blocks_def example_element_def List.map_filter_simps
        JSON_parse_empty_object JSON_parse_example_array JSON_parse_example_open_brace JSON_parse_example_word)
  from extractStructuredData_blocks[of "example_blocks [js ''{}'', js ''{bad'', js ''[1, 2]'', js ''tru'']" "[]"]
    ne have "extractStructuredData (example_blocks [js ''{}'', js ''{bad'', js ''[1, 2]'', js ''tru'']) []
     = Inr (valid_blocks (example_blocks [js ''{}'', js ''{bad'', js ''[1, 2]'', js ''tru''] [] sel_json_ld))"
    by blast
  with v show ?thesis by blast
qed

section \<open>Dynamic scraping: teardown, scrolling, metadata, interception\<close>

subsection \<open>The scroll loop\<close>

lemma scroll_loop_Some:
  "scroll_loop heights budget tick totalHeight = Some r \<Longrightarrow>
     \<exists>k<budget. r = Suc (tick + k) \<and> heights (tick + k) \<le> totalHeight + distance * Suc k"
proof (induction budget arbitrary: tick totalHeight)
  case 0
  then show ?case by simp
next
  case (Suc budget)
  show ?case
  proof (cases "heights tick \<le> totalHeight + distance")
    case True
    with Suc.prems have "r = Suc (tick + 0) \<and> heights (tick + 0) \<le> totalHeight + distance * Suc 0"
      by simp
    then show ?thesis by blast
  next
    case False
    with Suc.prems have "scroll_loop heights budget (Suc tick) (totalHeight + distance) = Some r"
      by simp
    from Suc.IH[OF this] obtain k where k: "k < budget" "r = Suc (Suc tick + k)"
      "heights (Suc tick + k) \<le> totalHeight + distance + distance * Suc k"
      by blast
    then have "Suc k < Suc budget \<and> r = Suc (tick + Suc k)
                 \<and> heights (tick + Suc k) \<le> totalHeight + distance * Suc (Suc k)"
      by simp
    then show ?thesis by blast
  qed
qed

lemma scroll_loop_reaches:
  "k < budget \<Longrightarrow> heights (tick + k) \<le> totalHeight + distance * Suc k \<Longrightarrow>
     \<exists>r. scroll_loop heights budget tick totalHeight = Some r"
proof (induction k arbitrary: budget tick totalHeight)
  case 0
  then obtain b where "budget = Suc b" by (cases budget) auto
  with 0 show ?case by simp
next
  case (Suc k)
  then obtain b where b: "budget = Suc b" "k < b" by (cases budget) auto
  show ?case
  proof (cases "heights tick \<le> totalHeight + distance")
    case True
    with b show ?thesis by simp
  next
    case False
    have "heights (Suc tick + k) \<le> (totalHeight + distance) + distance * Suc k"
      using Suc.prems(2) by simp
    from Suc.IH[OF b(2) this] False b show ?thesis by simp
  qed
qed

lemma scroll_loop_iff:
  "(\<exists>r. scroll_loop heights budget 0 0 = Some r)
     \<longleftrightarrow> (\<exists>n<budget. heights n \<le> distance * Suc n)"
proof
  assume "\<exists>r. scroll_loop heights budget 0 0 = Some r"
  then obtain r where "scroll_loop heights budget 0 0 = Some r" ..
  from scroll_loop_Some[OF this] show "\<exists>n<budget. heights n \<le> distance * Suc n" by auto
next
  assume "\<exists>n<budget. heights n \<le> distance * Suc n"
  then obtain n where "n < budget" "heights n \<le> distance * Suc n" by blast
  then show "\<exists>r. scroll_loop heights budget 0 0 = Some r"
    using scroll_loop_reaches[of n budget heights 0 0] by simp
qed

lemma scroll_loop_bounded:
  "scroll_loop heights budget 0 0 = Some ticks \<Longrightarrow> ticks \<le> budget"
  using scroll_loop_Some[of heights budget 0 0 ticks] by auto

lemma scroll_loop_flat: "0 < budget \<Longrightarrow> scroll_loop (\<lambda>n. 0) budget 0 0 = Some 1"
  by (cases budget) simp_all

text \<open>
  On a page whose scroll height grows by 100 pixels between ticks, starting from 200, the
  timer is still running after any number of ticks.
\<close>

lemma scroll_loop_growing: "scroll_loop (\<lambda>n. 100 * n + 200) budget 0 0 = None"
proof -
  have "\<not> (\<exists>n<budget. (\<lambda>n. 100 * n + 200) n \<le> distance * Suc n)"
    by (simp add: distance_def)
  then show ?thesis
    using scroll_loop_iff[of "\<lambda>n. 100 * n + 200" budget] by (metis not_Some_eq)
qed

text \<open>
  Claim C5. The awaited \<open>autoScroll\<close> settles for every page, also one whose scroll
  height keeps growing. It resolves when, within the ticks that fit before the protocol
  timeout, some tick \<open>n\<close> (counted from 0) reads a scroll height of at most
  \<open>100 * (n + 1)\<close>, the distance scrolled by then; otherwise it rejects, with
  \<open>ProtocolError\<close> when the timeout cut the scroll off. The timer never runs for more
  ticks than fit before the timeout.
\<close>

theorem autoScroll_always_settles:
  "autoScroll env =
     Some ((case rejects env AutoScroll of
              Some e \<Rightarrow> Inl e
            | None \<Rightarrow>
                if \<exists>n<protocolTicks env. scrollHeights env n \<le> distance * Suc n
                then Inr () else Inl ProtocolError),
           [AutoScroll])
   \<and> (\<forall>ticks. scroll_loop (scrollHeights env) (protocolTicks env) 0 0 = Some ticks
         \<longrightarrow> ticks \<le> protocolTicks env)"
proof -
  have "(case scroll_loop (scrollHeights env) (protocolTicks env) 0 0 of
           Some ticks \<Rightarrow> Inr () | None \<Rightarrow> Inl ProtocolError)
        = (if \<exists>n<protocolTicks env. scrollHeights env n \<le> distance * Suc n
           then Inr () else Inl ProtocolError)"
    using scroll_loop_iff[of "scrollHeights env" "protocolTicks env"]
    by (cases "scroll_loop (scrollHeights env) (protocolTicks env) 0 0") auto
  then show ?thesis
    using scroll_loop_bounded[of "scrollHeights env" "protocolTicks env"]
    by (auto simp: autoScroll_def await_def split: option.splits)
qed

theorem autoScroll_always_settles_witness:
  "autoScroll (example_page (\<lambda>c. None) (\<lambda>n. 250)) = Some (Inr (), [AutoScroll])
   \<and> scroll_loop (\<lambda>n. 250) 900 0 0 = Some 3
   \<and> autoScroll (example_page (\<lambda>c. None) (\<lambda>n. 100 * n + 200))
       = Some (Inl ProtocolError, [AutoScroll])"
proof -
  have a: "\<exists>n<900. (250::nat) \<le> distance * Suc n"
    by (rule exI[of _ 2]) (simp add: distance_def)
  have b: "\<not> (\<exists>n<900. 100 * n + 200 \<le> distance * Suc n)" by (simp add: distance_def)
  have c: "scroll_loop (\<lambda>n. 250) 900 0 0 = Some 3"
    by (simp add: numeral_eq_Suc distance_def)
  show ?thesis
    using autoScroll_always_settles[of "example_page (\<lambda>c. None) (\<lambda>n. 250)"]
      autoScroll_always_settles[of "example_page (\<lambda>c. None) (\<lambda>n. 100 * n + 200)"] a b c
    by (auto simp: example_page_def)
qed

subsection \<open>Browser teardown\<close>

text \<open>A run avoids a set of calls when none of them occurs among the calls it awaited.\<close>

definition avoids :: "call set \<Rightarrow> 'a async \<Rightarrow> bool" where
  "avoids S m = (case m of None \<Rightarrow> True | Some (r, tr) \<Rightarrow> set tr \<inter> S = {})"

lemma avoids_resolve: "avoids S (resolve v)"
  by (simp add: avoids_def resolve_def)

lemma avoids_invoke: "c \<notin> S \<Longrightarrow> avoids S (invoke env c v)"
  by (simp add: avoids_def invoke_def await_def)

lemma avoids_evaluate: "c \<notin> S \<Longrightarrow> avoids S (evaluate env c f)"
  by (simp add: avoids_def evaluate_def await_def)

lemma avoids_wait_for: "avoids {Launch, Close} (wait_for env waitFor timeout)"
  by (simp add: wait_for_def avoids_resolve avoids_invoke split: option.splits)

lemma avoids_autoScroll: "avoids {Launch, Close} (autoScroll env)"
  by (simp add: avoids_def autoScroll_def await_def)

lemma avoids_andThen:
  "avoids S m \<Longrightarrow> (\<And>v. avoids S (f v)) \<Longrightarrow> avoids S (andThen m f)"
  unfolding avoids_def andThen_def
  by (fastforce split: option.splits sum.splits prod.splits)

lemma avoids_extract_loop: "avoids {Launch, Close} (extract_loop env selectors result)"
  by (induction env selectors result rule: extract_loop.induct)
     (simp_all add: avoids_resolve avoids_andThen avoids_evaluate)

lemma launch_then_close:
  assumes body: "avoids {Launch, Close} body"
    and run: "try_finally (catch_rethrow (andThen (invoke env Launch ()) (\<lambda>browser. body)))
                (close_browser env) = Some (r, tr)"
  shows "hd tr = Launch \<and> count_list tr Launch = 1
       \<and> (if rejects env Launch = None then last tr = Close \<and> count_list tr Close = 1
          else tr = [Launch] \<and> (\<exists>e. r = Inl e))"
proof (cases "rejects env Launch")
  case (Some e)
  with run show ?thesis
    by (auto simp: try_finally_def catch_rethrow_def andThen_def invoke_def await_def
        close_browser_def resolve_def)
next
  case None
  then have l: "invoke env Launch () = Some (Inr (), [Launch])"
    by (simp add: invoke_def await_def)
  from run l obtain r' tr' where b: "body = Some (r', tr')"
    by (cases body) (auto simp: try_finally_def catch_rethrow_def andThen_def)
  from body b have av: "Launch \<notin> set tr'" "Close \<notin> set tr'"
    by (auto simp: avoids_def)
  obtain rc where c: "close_browser env = Some (rc, [Close])"
    using None by (simp add: close_browser_def invoke_def await_def)
  from run l b c have tr: "tr = Launch # tr' @ [Close]"
    by (auto simp: try_finally_def catch_rethrow_def andThen_def split: sum.splits)
  have "count_list (tr' @ [Close]) Launch = 0" "count_list tr' Close = 0"
    using av by (simp_all add: count_list_0_iff)
  then show ?thesis using None tr av by simp
qed

lemmas run_defs = scrapeWithPuppeteer_def scrapeWithPuppeteer_body_def try_finally_def
  catch_rethrow_def andThen_def invoke_def evaluate_def await_def resolve_def close_browser_def
  wait_for_def example_page_def timeout_at_def

lemma run_goto_timeout:
  "scrapeWithPuppeteer (example_page (timeout_at (Goto (js ''http://example.org/'') (Some 30000))) (\<lambda>n. 0))
       (js ''http://example.org/'') None 30000
     = Some (Inl TimeoutError,
             [Launch, NewPage, SetUserAgent, SetViewport, SetJavaScriptEnabled,
              Goto (js ''http://example.org/'') (Some 30000), Close])"
  by (simp add: run_defs)

lemma run_selector_timeout:
  "scrapeWithPuppeteer (example_page (timeout_at (WaitForSelector (js ''#main'') (Some 30000))) (\<lambda>n. 0))
       (js ''http://example.org/'') (Some (js ''#main'')) 30000
     = Some (Inl TimeoutError,
             [Launch, NewPage, SetUserAgent, SetViewport, SetJavaScriptEnabled,
              Goto (js ''http://example.org/'') (Some 30000),
              WaitForSelector (js ''#main'') (Some 30000), Close])"
  by (simp add: run_defs js_def)

lemma run_success:
  "\<exists>v. scrapeWithPuppeteer (example_page (\<lambda>c. None) (\<lambda>n. 0)) (js ''http://example.org/'') None 30000
     = Some (Inr v,
             [Launch, NewPage, SetUserAgent, SetViewport, SetJavaScriptEnabled,
              Goto (js ''http://example.org/'') (Some 30000), Title, EvaluateMeta, EvaluateBodyText,
              EvaluateLinks, EvaluateImages, Content, Screenshot, Close])"
  by (simp add: run_defs eval_metaDescription_def eval_bodyText_def eval_links_def eval_images_def
      example_dom_def split: list.splits)

lemma run_launch_failure:
  "scrapeWithPuppeteer (example_page (\<lambda>c. if c = Launch then Some LaunchError else None) (\<lambda>n. 0))
       (js ''http://example.org/'') None 30000
     = Some (Inl LaunchError, [Launch])"
  by (simp add: run_defs)

text \<open>A run settles when its promise resolves or rejects.\<close>

definition settles :: "'a async \<Rightarrow> bool" where
  "settles m \<longleftrightarrow> m \<noteq> None"

lemma settles_resolve: "settles (resolve v)"
  by (simp add: settles_def resolve_def)

lemma settles_invoke: "settles (invoke env c v)"
  by (simp add: settles_def invoke_def await_def)

lemma settles_evaluate: "settles (evaluate env c f)"
  by (simp add: settles_def evaluate_def await_def)

lemma settles_wait_for: "settles (wait_for env waitFor timeout)"
  by (simp add: wait_for_def settles_resolve settles_invoke split: option.splits)

lemma settles_autoScroll: "settles (autoScroll env)"
  by (simp add: settles_def autoScroll_def await_def)

lemma settles_andThen:
  assumes "settles m" and "\<And>v. settles (f v)"
  shows "settles (andThen m f)"
proof -
  obtain r tr where m: "m = Some (r, tr)"
    using assms(1) by (auto simp: settles_def)
  show ?thesis
  proof (cases r)
    case (Inl e)
    with m show ?thesis by (simp add: settles_def andThen_def)
  next
    case (Inr v)
    obtain r' tr' where "f v = Some (r', tr')"
      using assms(2)[of v] by (auto simp: settles_def)
    with m Inr show ?thesis by (simp add: settles_def andThen_def)
  qed
qed

lemma settles_extract_loop: "settles (extract_loop env selectors result)"
  by (induction env selectors result rule: extract_loop.induct)
     (simp_all add: settles_resolve settles_andThen settles_evaluate)

lemma settles_close_browser: "settles (close_browser env)"
  by (simp add: close_browser_def settles_invoke settles_resolve)

lemma launch_always_closes:
  assumes av: "avoids {Launch, Close} body" and st: "settles body"
  shows "\<exists>r tr. try_finally (catch_rethrow (andThen (invoke env Launch ()) (\<lambda>browser. body)))
                  (close_browser env) = Some (r, tr)
           \<and> hd tr = Launch \<and> count_list tr Launch = 1
           \<and> (if rejects env Launch = None then last tr = Close \<and> count_list tr Close = 1
              else tr = [Launch] \<and> (\<exists>e. r = Inl e))"
proof -
  have "settles (andThen (invoke env Launch ()) (\<lambda>browser. body))"
    using st by (intro settles_andThen settles_invoke)
  then obtain a b where m: "andThen (invoke env Launch ()) (\<lambda>browser. body) = Some (a, b)"
    by (auto simp: settles_def)
  obtain c d where c: "close_browser env = Some (c, d)"
    using settles_close_browser[of env] by (auto simp: settles_def)
  have "\<exists>r tr. try_finally (catch_rethrow (andThen (invoke env Launch ()) (\<lambda>browser. body)))
                  (close_browser env) = Some (r, tr)"
    by (cases c) (simp_all add: try_finally_def catch_rethrow_def m c)
  then obtain r tr where run:
    "try_finally (catch_rethrow (andThen (invoke env Launch ()) (\<lambda>browser. body)))
       (close_browser env) = Some (r, tr)"
    by blast
  from launch_then_close[OF av run] run show ?thesis by blast
qed

lemma run_scroll_cut_off:
  "bypassAntiScrapingMeasures (example_page (\<lambda>c. None) (\<lambda>n. 100 * n + 200))
       (js ''http://example.org/'') None
     = Some (Inl ProtocolError,
             [Launch, NewPage, SetUserAgent, SetExtraHTTPHeaders, SetViewport,
              SetJavaScriptEnabled, SetRequestInterception,
              Goto (js ''http://example.org/'') (Some 60000), WaitForTimeout, AutoScroll, Close])"
  by (simp add: bypassAntiScrapingMeasures_def try_finally_def catch_rethrow_def andThen_def
      invoke_def await_def autoScroll_def close_browser_def example_page_def scroll_loop_growing)

text \<open>
  Claim C4. \<open>scrapeWithPuppeteer\<close>, \<open>extractContentWithPuppeteer\<close> and
  \<open>bypassAntiScrapingMeasures\<close> always return, with a value or with an error (a
  navigation or selector-wait timeout, or a scroll cut off by the protocol timeout,
  included), and when they do the browser they launched has been closed:
  \<open>puppeteer.launch\<close> was the first call and was made once, and if it resolved then
  \<open>browser.close\<close> was made exactly once, as the last call before the return. If the
  launch itself failed, no other call was made and the error is returned.
\<close>

theorem browser_closed_on_every_exit:
  "(\<exists>r tr. scrapeWithPuppeteer env url waitFor timeout = Some (r, tr)
       \<and> hd tr = Launch \<and> count_list tr Launch = 1
       \<and> (if rejects env Launch = None then last tr = Close \<and> count_list tr Close = 1
          else tr = [Launch] \<and> (\<exists>e. r = Inl e)))
   \<and> (\<exists>r tr. extractContentWithPuppeteer env url selectors waitFor = Some (r, tr)
       \<and> hd tr = Launch \<and> count_list tr Launch = 1
       \<and> (if rejects env Launch = None then last tr = Close \<and> count_list tr Close = 1
          else tr = [Launch] \<and> (\<exists>e. r = Inl e)))
   \<and> (\<exists>r tr. bypassAntiScrapingMeasures env url waitFor = Some (r, tr)
       \<and> hd tr = Launch \<and> count_list tr Launch = 1
       \<and> (if rejects env Launch = None then last tr = Close \<and> count_list tr Close = 1
          else tr = [Launch] \<and> (\<exists>e. r = Inl e)))"
proof (intro conjI)
  have "avoids {Launch, Close} (scrapeWithPuppeteer_body env url waitFor timeout)"
    unfolding scrapeWithPuppeteer_body_def
    by (intro avoids_andThen avoids_invoke avoids_evaluate avoids_wait_for avoids_resolve) simp_all
  moreover have "settles (scrapeWithPuppeteer_body env url waitFor timeout)"
    unfolding scrapeWithPuppeteer_body_def
    by (intro settles_andThen settles_invoke settles_evaluate settles_wait_for settles_resolve)
  ultimately show "\<exists>r tr. scrapeWithPuppeteer env url waitFor timeout = Some (r, tr)
       \<and> hd tr = Launch \<and> count_list tr Launch = 1
       \<and> (if rejects env Launch = None then last tr = Close \<and> count_list tr Close = 1
          else tr = [Launch] \<and> (\<exists>e. r = Inl e))"
    unfolding scrapeWithPuppeteer_def by (rule launch_always_closes)
next
  show "\<exists>r tr. extractContentWithPuppeteer env url selectors waitFor = Some (r, tr)
       \<and> hd tr = Launch \<and> count_list tr Launch = 1
       \<and> (if rejects env Launch = None then last tr = Close \<and> count_list tr Close = 1
          else tr = [Launch] \<and> (\<exists>e. r = Inl e))"
    unfolding extractContentWithPuppeteer_def
  proof (rule launch_always_closes)
    show "avoids {Launch, Close}
            (andThen (invoke env NewPage ()) (\<lambda>page.
             andThen (invoke env SetUserAgent ()) (\<lambda>_.
             andThen (invoke env (Goto url None) ()) (\<lambda>_.
             andThen (wait_for env waitFor None) (\<lambda>_.
             extract_loop env selectors [])))))"
      by (intro avoids_andThen avoids_invoke avoids_wait_for avoids_extract_loop) simp_all
    show "settles
            (andThen (invoke env NewPage ()) (\<lambda>page.
             andThen (invoke env SetUserAgent ()) (\<lambda>_.
             andThen (invoke env (Goto url None) ()) (\<lambda>_.
             andThen (wait_for env waitFor None) (\<lambda>_.
             extract_loop env selectors [])))))"
      by (intro settles_andThen settles_invoke settles_wait_for settles_extract_loop)
  qed
next
  show "\<exists>r tr. bypassAntiScrapingMeasures env url waitFor = Some (r, tr)
       \<and> hd tr = Launch \<and> count_list tr Launch = 1
       \<and> (if rejects env Launch = None then last tr = Close \<and> count_list tr Close = 1
          else tr = [Launch] \<and> (\<exists>e. r = Inl e))"
    unfolding bypassAntiScrapingMeasures_def
    by (rule launch_always_closes)
       ((intro avoids_andThen avoids_invoke avoids_evaluate avoids_wait_for avoids_resolve
           avoids_autoScroll settles_andThen settles_invoke settles_evaluate settles_wait_for
           settles_resolve settles_autoScroll; simp)+)
qed

theorem browser_closed_on_every_exit_witness:
  "scrapeWithPuppeteer
       (example_page (timeout_at (Goto (js ''http://example.org/'') (Some 30000))) (\<lambda>n. 0))
       (js ''http://example.org/'') None 30000
     = Some (Inl TimeoutError,
             [Launch, NewPage, SetUserAgent, SetViewport, SetJavaScriptEnabled,
              Goto (js ''http://example.org/'') (Some 30000), Close])
   \<and> last [Launch, NewPage, SetUserAgent, SetViewport, SetJavaScriptEnabled,
            Goto (js ''http://example.org/'') (Some 30000), Close] = Close
   \<and> count_list [Launch, NewPage, SetUserAgent, SetViewport, SetJavaScriptEnabled,
                  Goto (js ''http://example.org/'') (Some 30000), Close] Close = 1
   \<and> scrapeWithPuppeteer
       (example_page (timeout_at (WaitForSelector (js ''#main'') (Some 30000))) (\<lambda>n. 0))
       (js ''http://example.org/'') (Some (js ''#main'')) 30000
     = Some (Inl TimeoutError,
             [Launch, NewPage, SetUserAgent, SetViewport, SetJavaScriptEnabled,
              Goto (js ''http://example.org/'') (Some 30000),
              WaitForSelector (js ''#main'') (Some 30000), Close])
   \<and> scrapeWithPuppeteer
       (example_page (\<lambda>c. if c = Launch then Some LaunchError else None) (\<lambda>n. 0))
       (js ''http://example.org/'') None 30000
     = Some (Inl LaunchError, [Launch])
   \<and> bypassAntiScrapingMeasures (example_page (\<lambda>c. None) (\<lambda>n. 100 * n + 200))
       (js ''http://example.org/'') None
     = Some (Inl ProtocolError,
             [Launch, NewPage, SetUserAgent, SetExtraHTTPHeaders, SetViewport,
              SetJavaScriptEnabled, SetRequestInterception,
              Goto (js ''http://example.org/'') (Some 60000), WaitForTimeout, AutoScroll, Close])"
  using browser_closed_on_every_exit[of
      "example_page (timeout_at (Goto (js ''http://example.org/'') (Some 30000))) (\<lambda>n. 0)"
      "js ''http://example.org/''" None 30000]
    run_goto_timeout run_selector_timeout run_launch_failure run_scroll_cut_off
  by (simp add: example_page_def timeout_at_def)

subsection \<open>Title and meta description\<close>

lemma sel_meta_description_neq:
  "sel_meta_description \<noteq> js ''a''" "sel_meta_description \<noteq> js ''img''"
  by (simp_all add: sel_meta_description_def js_def)

text \<open>
  Claim C8 at its failing inputs. On a page whose description element has no
  \<open>content\<close> attribute, \<open>scrapeWithPuppeteer\<close> returns \<open>null\<close> as
  \<open>metaDescription\<close>, where \<open>bypassAntiScrapingMeasures\<close> and \<open>scrapeWithCheerio\<close>
  return the empty string. On a document with two \<open>title\<close> elements,
  \<open>scrapeWithCheerio\<close> returns the text of both, joined, as \<open>title\<close>.
\<close>

theorem metaDescription_null_without_content:
  "(\<exists>v tr. scrapeWithPuppeteer bare_meta_page (js ''http://example.org/'') None 30000 = Some (Inr v, tr)
           \<and> get_prop v (js ''metaDescription'') = JNull)
   \<and> (\<exists>v tr. bypassAntiScrapingMeasures bare_meta_page (js ''http://example.org/'') None = Some (Inr v, tr)
           \<and> get_prop v (js ''metaDescription'') = JStr [])
   \<and> get_prop (cheerio_record (\<lambda>sel. if sel = sel_meta_description then [bare_meta] else []) [])
        (js ''metaDescription'') = JStr []
   \<and> get_prop (cheerio_record two_titles []) (js ''title'') = JStr (js ''PageLogo'')"
proof (intro conjI)
  show "\<exists>v tr. scrapeWithPuppeteer bare_meta_page (js ''http://example.org/'') None 30000 = Some (Inr v, tr)
           \<and> get_prop v (js ''metaDescription'') = JNull"
    by (simp add: scrapeWithPuppeteer_def scrapeWithPuppeteer_body_def try_finally_def
      catch_rethrow_def andThen_def invoke_def evaluate_def await_def resolve_def close_browser_def
      wait_for_def bare_meta_page_def eval_metaDescription_def eval_bodyText_def eval_links_def
      eval_images_def getAttribute_def bare_meta_def sel_meta_description_neq js_def)
  show "\<exists>v tr. bypassAntiScrapingMeasures bare_meta_page (js ''http://example.org/'') None = Some (Inr v, tr)
           \<and> get_prop v (js ''metaDescription'') = JStr []"
    by (simp add: bypassAntiScrapingMeasures_def try_finally_def autoScroll_def scroll_loop_flat
      catch_rethrow_def andThen_def invoke_def evaluate_def await_def resolve_def close_browser_def
      wait_for_def bare_meta_page_def eval_content_def with_screenshot_def attr_def or_else_def
      bare_meta_def js_def)
  show "get_prop (cheerio_record (\<lambda>sel. if sel = sel_meta_description then [bare_meta] else []) [])
        (js ''metaDescription'') = JStr []"
    by (simp add: cheerio_record_def attr_def or_else_def bare_meta_def js_def)
  show "get_prop (cheerio_record two_titles []) (js ''title'') = JStr (js ''PageLogo'')"
    by (simp add: cheerio_record_def two_titles_def text_of_def example_element_def js_def)
qed

subsection \<open>Request interception\<close>

lemma map_of_obj_put: "map_of (obj_put ps k v) = (map_of ps)(k \<mapsto> v)"
  by (induction ps) (auto simp: fun_eq_iff)

text \<open>
  Claim C9. For a request of resource type \<open>document\<close> or \<open>xhr\<close> the handler sends
  the request on with the header \<open>Referer: https://www.google.com/\<close> and every other
  header as it was; a request of any other resource type is continued without overrides,
  its headers unchanged.
\<close>

theorem on_request_adds_referer:
  "(if resourceType request = js ''document'' \<or> resourceType request = js ''xhr''
    then map_of (sent_headers request (on_request request)) (js ''Referer'')
           = Some (js ''https://www.google.com/'')
       \<and> (\<forall>name. name \<noteq> js ''Referer'' \<longrightarrow>
             map_of (sent_headers request (on_request request)) name = map_of (headers request) name)
    else on_request request = Continue None
       \<and> sent_headers request (on_request request) = headers request)"
  by (simp add: on_request_def map_of_obj_put)

theorem on_request_adds_referer_witness:
  "sent_headers \<lparr>resourceType = js ''xhr'', headers = [(js ''accept'', js ''*/*'')]\<rparr>
       (on_request \<lparr>resourceType = js ''xhr'', headers = [(js ''accept'', js ''*/*'')]\<rparr>)
     = [(js ''accept'', js ''*/*''), (js ''Referer'', js ''https://www.google.com/'')]
   \<and> map_of (sent_headers \<lparr>resourceType = js ''xhr'', headers = [(js ''accept'', js ''*/*'')]\<rparr>
       (on_request \<lparr>resourceType = js ''xhr'', headers = [(js ''accept'', js ''*/*'')]\<rparr>)) (js ''accept'')
     = Some (js ''*/*'')
   \<and> on_request \<lparr>resourceType = js ''image'', headers = [(js ''accept'', js ''image/png'')]\<rparr>
     = Continue None
   \<and> sent_headers \<lparr>resourceType = js ''image'', headers = [(js ''accept'', js ''image/png'')]\<rparr>
       (on_request \<lparr>resourceType = js ''image'', headers = [(js ''accept'', js ''image/png'')]\<rparr>)
     = [(js ''accept'', js ''image/png'')]"
  using on_request_adds_referer[of "\<lparr>resourceType = js ''xhr'', headers = [(js ''accept'', js ''*/*'')]\<rparr>"]
    on_request_adds_referer[of "\<lparr>resourceType = js ''image'', headers = [(js ''accept'', js ''image/png'')]\<rparr>"]
  by (simp add: on_request_def js_def)

section \<open>Cache and authentication\<close>

subsection \<open>Capacity\<close>

text \<open>The entry that \<open>setCacheItem\<close> stores under the default time to live.\<close>

definition default_entry :: "jsstring \<times> jsval \<times> int \<Rightarrow> entry" where
  "default_entry item =
     \<lparr>ekey = fst item, evalue = fst (snd item), ettl = cache_ttl, estart = snd (snd item)\<rparr>"

lemma setCacheItem_new:
  assumes "v \<noteq> JUndefined" "key \<notin> set (map ekey cache)"
  shows "setCacheItem key v None now cache =
           (if length cache = cache_max then tl cache else cache) @ [default_entry (key, v, now)]"
  using assms by (simp add: setCacheItem_def lru_set_def default_entry_def cache_ttl_def)

lemma insert_all_append:
  "insert_all (xs @ ys) cache = insert_all ys (insert_all xs cache)"
  by (induction xs cache rule: insert_all.induct) simp_all

lemma insert_all_below_capacity:
  assumes "distinct (map fst items)" "\<forall>item \<in> set items. fst (snd item) \<noteq> JUndefined"
    "set (map fst items) \<inter> set (map ekey cache) = {}"
    "length cache + length items \<le> cache_max"
  shows "insert_all items cache = cache @ map default_entry items"
  using assms
proof (induction items arbitrary: cache)
  case Nil
  then show ?case by simp
next
  case (Cons item items)
  obtain key v now where item: "item = (key, v, now)" by (cases item)
  from Cons.prems item have v: "v \<noteq> JUndefined" and k: "key \<notin> set (map ekey cache)"
    and len: "length cache \<noteq> cache_max"
    by auto
  have step: "setCacheItem key v None now cache = cache @ [default_entry item]"
    using setCacheItem_new[OF v k] len item by simp
  have "insert_all items (cache @ [default_entry item]) =
          (cache @ [default_entry item]) @ map default_entry items"
  proof (rule Cons.IH)
    show "distinct (map fst items)" using Cons.prems(1) by simp
    show "\<forall>item \<in> set items. fst (snd item) \<noteq> JUndefined" using Cons.prems(2) by simp
    show "set (map fst items) \<inter> set (map ekey (cache @ [default_entry item])) = {}"
      using Cons.prems(1,3) by (auto simp: default_entry_def)
    show "length (cache @ [default_entry item]) + length items \<le> cache_max"
      using Cons.prems(4) by simp
  qed
  then show ?case using step item by simp
qed

lemma insert_all_overflow:
  assumes len: "length items = cache_max + 1" and d: "distinct (map fst items)"
    and v: "\<forall>item \<in> set items. fst (snd item) \<noteq> JUndefined"
  shows "insert_all items [] = map default_entry (tl items)"
proof -
  from len obtain xs x where items: "items = xs @ [x]" and lx: "length xs = cache_max"
    by (cases items rule: rev_cases) auto
  have xs: "insert_all xs [] = map default_entry xs"
    using insert_all_below_capacity[of xs "[]"] d v lx items by simp
  obtain key val now where x: "x = (key, val, now)" by (cases x)
  have kn: "key \<notin> set (map ekey (map default_entry xs))"
    using d items x by (auto simp: default_entry_def)
  have vn: "val \<noteq> JUndefined" using v items x by simp
  have "xs \<noteq> []" using lx by (auto simp: cache_max_def)
  then have tl: "tl items = tl xs @ [x]" using items by simp
  have "insert_all items [] = setCacheItem key val None now (map default_entry xs)"
    using items x xs by (simp add: insert_all_append)
  also have "\<dots> = tl (map default_entry xs) @ [default_entry x]"
    using setCacheItem_new[OF vn kn] lx x by simp
  also have "\<dots> = map default_entry (tl items)"
    using tl by (simp add: map_tl)
  finally show ?thesis .
qed

lemma find_default_entry:
  assumes "distinct (map fst items)" "item \<in> set items"
  shows "find (\<lambda>e. ekey e = fst item) (map default_entry items) = Some (default_entry item)"
  using assms
proof (induction items)
  case Nil
  then show ?case by simp
next
  case (Cons a items)
  then show ?case by (force simp: default_entry_def)
qed

lemma find_absent:
  "key \<notin> set (map fst items) \<Longrightarrow> find (\<lambda>e. ekey e = key) (map default_entry items) = None"
  by (induction items) (auto simp: default_entry_def)

lemma getCacheItem_absent:
  "key \<notin> set (map fst items) \<Longrightarrow>
     fst (getCacheItem key t (map default_entry items)) = JUndefined"
  by (simp add: getCacheItem_def lru_get_def find_absent)

lemma getCacheItem_present:
  assumes "distinct (map fst items)" "item \<in> set items" "t - snd (snd item) \<le> cache_ttl"
  shows "fst (getCacheItem (fst item) t (map default_entry items)) = fst (snd item)"
  using assms
  by (simp add: getCacheItem_def lru_get_def find_default_entry isStale_def default_entry_def)

lemma example_distinct: "distinct (map fst example_items)"
  by (auto simp: example_items_def distinct_map comp_def inj_on_def dest: arg_cong[where f = length])

lemma example_length: "length example_items = cache_max + 1"
  by (simp add: example_items_def cache_max_def)

lemma example_fresh:
  "\<forall>item \<in> set example_items. fst (snd item) \<noteq> JUndefined \<and> 0 - snd (snd item) \<le> cache_ttl"
  by (auto simp: example_items_def cache_ttl_def)

lemma example_hd: "fst (hd example_items) = [0x6B]"
  by (simp add: example_items_def hd_map upt_conv_Cons)

lemma example_second: "([0x6B, 0x6B], JStr [0x6B, 0x6B], 0) \<in> set (tl example_items)"
proof -
  have "tl example_items = map (\<lambda>i. (replicate (Suc i) 0x6B, JStr (replicate (Suc i) 0x6B), 0)) [1..<101]"
    by (simp add: example_items_def upt_conv_Cons[of 0 101])
  moreover have "(1::nat) \<in> set [1..<101]" by simp
  ultimately show ?thesis by force
qed

lemma overflow_scenario:
  assumes "length items = cache_max + 1" and "distinct (map fst items)"
    and "\<forall>item \<in> set items. fst (snd item) \<noteq> JUndefined \<and> t - snd (snd item) \<le> cache_ttl"
  shows "cache_max = 100
       \<and> length (insert_all items []) = cache_max
       \<and> map ekey (insert_all items []) = map fst (tl items)
       \<and> fst (getCacheItem (fst (hd items)) t (insert_all items [])) = JUndefined
       \<and> (\<forall>item \<in> set (tl items).
            fst (getCacheItem (fst item) t (insert_all items [])) = fst (snd item))"
proof -
  have ne: "items \<noteq> []" using assms(1) by auto
  have c: "insert_all items [] = map default_entry (tl items)"
    using insert_all_overflow[OF assms(1,2)] assms(3) by simp
  have dt: "distinct (map fst (tl items))" using assms(2) by (simp add: distinct_tl map_tl)
  have "fst (hd items) \<notin> set (map fst (tl items))"
    using assms(2) ne by (cases items) auto
  then have a: "fst (getCacheItem (fst (hd items)) t (insert_all items [])) = JUndefined"
    using c by (simp add: getCacheItem_absent)
  have b: "fst (getCacheItem (fst item) t (insert_all items [])) = fst (snd item)"
    if "item \<in> set (tl items)" for item
  proof -
    from that have "item \<in> set items" using ne by (cases items) auto
    with assms(3) have "t - snd (snd item) \<le> cache_ttl" by blast
    from getCacheItem_present[OF dt that this] c show ?thesis by simp
  qed
  have k: "map ekey (insert_all items []) = map fst (tl items)"
    using c by (simp add: default_entry_def comp_def)
  show ?thesis using a b c k assms(1) by (simp add: cache_max_def)
qed

lemma setCacheItem_bounded:
  "length cache \<le> cache_max \<Longrightarrow> length (setCacheItem key v ttl now cache) \<le> cache_max"
proof -
  assume a: "length cache \<le> cache_max"
  have d: "length (lru_delete key cache) \<le> length cache"
    by (simp add: lru_delete_def)
  have "key \<in> set (map ekey cache) \<Longrightarrow> length (lru_delete key cache) < length cache"
    by (auto simp: lru_delete_def intro: length_filter_less)
  then show ?thesis using a d
    by (auto simp: setCacheItem_def lru_set_def Let_def cache_max_def)
qed

lemma setCacheItem_evicts_head:
  assumes "length cache = cache_max" "key \<notin> set (map ekey cache)" "v \<noteq> JUndefined"
  shows "map ekey (setCacheItem key v ttl now cache) = tl (map ekey cache) @ [key]"
  using assms by (simp add: setCacheItem_def lru_set_def Let_def map_tl)

lemma setCacheItem_refreshes:
  assumes "key \<in> set (map ekey cache)" "v \<noteq> JUndefined"
  shows "map ekey (setCacheItem key v ttl now cache) = filter (\<lambda>k. k \<noteq> key) (map ekey cache) @ [key]"
  using assms by (simp add: setCacheItem_def lru_set_def Let_def lru_delete_def filter_map comp_def)

lemma find_distinct:
  "distinct (map ekey cache) \<Longrightarrow> e \<in> set cache \<Longrightarrow> find (\<lambda>x. ekey x = ekey e) cache = Some e"
  by (induction cache) (auto simp: rev_image_eqI)

lemma getCacheItem_moves_to_end:
  assumes "distinct (map ekey cache)" "e \<in> set cache" "\<not> isStale e now"
  shows "getCacheItem (ekey e) now cache = (evalue e, lru_delete (ekey e) cache @ [e])"
  using assms by (simp add: getCacheItem_def lru_get_def find_distinct)

text \<open>
  Claim C6. The cache never holds more than 100 entries. After one more than that many
  distinct keys have been inserted into the empty cache, the cache holds exactly the keys
  but the first one, which is the least recently used: \<open>getCacheItem\<close> on it returns
  \<open>undefined\<close>, and on every other key returns its value (read within the time to
  live). In any state, inserting a new key into the full cache evicts the entry at the
  head of the recency order and nothing else; setting a key that is present, or reading
  a key that is present and not expired, moves it to the most recently used end and
  evicts nothing.
\<close>

theorem capacity_evicts_least_recently_used:
  "(length items = cache_max + 1 \<and> distinct (map fst items)
      \<and> (\<forall>item \<in> set items. fst (snd item) \<noteq> JUndefined \<and> t - snd (snd item) \<le> cache_ttl)
    \<longrightarrow> cache_max = 100
      \<and> length (insert_all items []) = cache_max
      \<and> map ekey (insert_all items []) = map fst (tl items)
      \<and> fst (getCacheItem (fst (hd items)) t (insert_all items [])) = JUndefined
      \<and> (\<forall>item \<in> set (tl items).
            fst (getCacheItem (fst item) t (insert_all items [])) = fst (snd item)))
   \<and> (length cache \<le> cache_max \<longrightarrow> length (setCacheItem key v ttl now cache) \<le> cache_max)
   \<and> (length cache = cache_max \<and> key \<notin> set (map ekey cache) \<and> v \<noteq> JUndefined
    \<longrightarrow> map ekey (setCacheItem key v ttl now cache) = tl (map ekey cache) @ [key])
   \<and> (key \<in> set (map ekey cache) \<and> v \<noteq> JUndefined
    \<longrightarrow> map ekey (setCacheItem key v ttl now cache)
          = filter (\<lambda>k. k \<noteq> key) (map ekey cache) @ [key])
   \<and> (distinct (map ekey cache) \<and> e \<in> set cache \<and> \<not> isStale e now
    \<longrightarrow> getCacheItem (ekey e) now cache = (evalue e, lru_delete (ekey e) cache @ [e]))"
  using overflow_scenario[of items t] setCacheItem_bounded[of cache key v ttl now]
    setCacheItem_evicts_head[of cache key v ttl now] setCacheItem_refreshes[of key cache v ttl now]
    getCacheItem_moves_to_end[of cache e now]
  by blast

theorem capacity_evicts_least_recently_used_witness:
  "length (insert_all example_items []) = 100
   \<and> fst (getCacheItem [0x6B] 0 (insert_all example_items [])) = JUndefined
   \<and> fst (getCacheItem [0x6B, 0x6B] 0 (insert_all example_items [])) = JStr [0x6B, 0x6B]
   \<and> getCacheItem (js ''a'') 7 [entry_a, entry_b] = (JStr (js ''1''), [entry_b, entry_a])"
proof -
  have s: "length (insert_all example_items []) = 100
   \<and> fst (getCacheItem [0x6B] 0 (insert_all example_items [])) = JUndefined
   \<and> fst (getCacheItem [0x6B, 0x6B] 0 (insert_all example_items [])) = JStr [0x6B, 0x6B]"
    using capacity_evicts_least_recently_used[of example_items 0]
      example_length example_distinct example_fresh example_hd example_second
    by fastforce
  have d: "distinct (map ekey [entry_a, entry_b])" "entry_a \<in> set [entry_a, entry_b]"
    "\<not> isStale entry_a 7"
    by (simp_all add: entry_a_def entry_b_def js_def isStale_def cache_ttl_def)
  have "getCacheItem (js ''a'') 7 [entry_a, entry_b] = (JStr (js ''1''), [entry_b, entry_a])"
    using capacity_evicts_least_recently_used[where cache = "[entry_a, entry_b]" and e = entry_a
        and now = 7] d
    by (simp add: entry_a_def entry_b_def lru_delete_def js_def)
  with s show ?thesis by blast
qed

subsection \<open>A time to live of 0\<close>

lemma find_last:
  "\<forall>x \<in> set xs. \<not> P x \<Longrightarrow> P e \<Longrightarrow> find P (xs @ [e]) = Some e"
  by (induction xs) simp_all

lemma set_then_find:
  assumes "v \<noteq> JUndefined"
  shows "\<exists>start. find (\<lambda>e. ekey e = key) (setCacheItem key v (Some ttl) now cache)
           = Some \<lparr>ekey = key, evalue = v, ettl = ttl, estart = start\<rparr>"
proof -
  have a: "\<forall>x \<in> set (lru_delete key cache). ekey x \<noteq> key"
    by (simp add: lru_delete_def)
  have b: "key \<notin> set (map ekey cache) \<Longrightarrow> \<forall>x \<in> set cache. ekey x \<noteq> key"
    by auto
  have c: "key \<notin> set (map ekey cache) \<Longrightarrow> \<forall>x \<in> set (tl cache). ekey x \<noteq> key"
    by (cases cache) auto
  show ?thesis using assms a b c
    by (auto simp: setCacheItem_def lru_set_def Let_def find_last)
qed

text \<open>
  Claim C3 at its failing input. \<open>setCacheItem(key, value, 0)\<close> stores the value
  without expiry: a \<open>getCacheItem(key)\<close> at any later time returns it. With the value
  \<open>null\<close>, as \<open>logoutUser\<close> and \<open>deleteScrapingTask\<close> call it, the read returns
  \<open>null\<close>, not \<open>undefined\<close>, and the key stays in the cache: after \<open>logoutUser\<close> the
  session key is still there, although \<open>getCurrentUser\<close> answers \<open>null\<close> for it.
\<close>

theorem zero_ttl_entry_is_returned:
  "fst (getCacheItem key later (setCacheItem key (JStr text) (Some 0) now cache)) = JStr text
   \<and> fst (getCacheItem key later (setCacheItem key JNull (Some 0) now cache)) = JNull
   \<and> SESSIONS_CACHE_PREFIX @ js ''f00d'' \<in> set (map ekey (logoutUser (Some (js ''f00d'')) now cache))
   \<and> fst (getCurrentUser toString (Some (js ''f00d'')) later (logoutUser (Some (js ''f00d'')) now cache))
       = JNull"
proof -
  have g: "fst (getCacheItem key later (setCacheItem key v (Some 0) now cache)) = v"
    if "v \<noteq> JUndefined" for v key
    using set_then_find[OF that, of key 0 now cache]
    by (auto simp: getCacheItem_def lru_get_def isStale_def)
  have k: "SESSIONS_CACHE_PREFIX @ js ''f00d'' \<in> set (map ekey (logoutUser (Some (js ''f00d'')) now cache))"
    by (simp add: logoutUser_def setCacheItem_def lru_set_def Let_def js_def)
  have "fst (getCacheItem (SESSIONS_CACHE_PREFIX @ js ''f00d'') later
               (logoutUser (Some (js ''f00d'')) now cache)) = JNull"
    using g[of JNull "SESSIONS_CACHE_PREFIX @ js ''f00d''"] by (simp add: logoutUser_def js_def)
  then have u: "fst (getCurrentUser toString (Some (js ''f00d'')) later
                 (logoutUser (Some (js ''f00d'')) now cache)) = JNull"
    by (auto simp: getCurrentUser_def js_def split: prod.splits)
  from g[of "JStr text" key] g[of JNull key] k u show ?thesis by simp
qed

subsection \<open>Users returned without their password hash\<close>

lemma has_own_rest_without: "\<not> has_own (rest_without name v) name"
  by (auto simp: has_own_def rest_without_def)

lemma rest_without_User:
  "is_User v \<Longrightarrow>
     own_keys (rest_without (js ''passwordHash'') v) = [js ''id'', js ''email'', js ''createdAt'']"
  by (auto simp: is_User_def own_keys_def rest_without_def own_properties_def js_def
      map_eq_Cons_conv split: jsval.splits)

lemma getCacheItem_from_cache:
  assumes "getCacheItem key now cache = (v, cache')"
  shows "set cache' \<subseteq> set cache"
    and "v \<noteq> JUndefined \<Longrightarrow> \<exists>e \<in> set cache. ekey e = key \<and> evalue e = v"
  using assms
  by (auto simp: getCacheItem_def lru_get_def lru_delete_def find_Some_iff
      split: option.splits if_splits)

lemma users_wellformed_subset:
  "users_wellformed cache \<Longrightarrow> set cache' \<subseteq> set cache \<Longrightarrow> users_wellformed cache'"
  by (auto simp: users_wellformed_def list_all_iff)

lemma users_wellformed_value:
  assumes "users_wellformed cache" "e \<in> set cache" "ekey e = USERS_CACHE_PREFIX @ rest"
  shows "is_User (evalue e)"
  using assms by (auto simp: users_wellformed_def list_all_iff)

lemma registerUser_result:
  assumes "registerUser env email password now cache = (Inr u, cache')"
  shows "u = JObj [(js ''id'', JStr (randomUUID env)), (js ''email'', JStr email),
                   (js ''createdAt'', JStr (isoDate env))]"
  using assms
  by (auto simp: registerUser_def Let_def rest_without_def own_properties_def js_def
      split: prod.splits if_splits)

lemma getCurrentUser_result:
  assumes "getCurrentUser toString cookie now cache = (u, cache')" "u \<noteq> JNull"
  shows "\<exists>user rest. u = rest_without (js ''passwordHash'') user
           \<and> (\<exists>e \<in> set cache. ekey e = USERS_CACHE_PREFIX @ rest \<and> evalue e = user)"
proof -
  from assms obtain tok session cache1 user cache2 where
    s: "getCacheItem (SESSIONS_CACHE_PREFIX @ tok) now cache = (session, cache1)"
    and g: "getCacheItem (USERS_CACHE_PREFIX @ toString (get_prop session (js ''email''))) now cache1
            = (user, cache2)"
    and t: "truthy user" and u: "u = rest_without (js ''passwordHash'') user"
    by (auto simp: getCurrentUser_def split: option.splits if_splits prod.splits)
  from t have "user \<noteq> JUndefined" by auto
  from getCacheItem_from_cache(2)[OF g this] getCacheItem_from_cache(1)[OF s] u
  show ?thesis by blast
qed

lemma registerUser_keeps_users_wellformed:
  assumes "users_wellformed cache" "registerUser env email password now cache = (r, cache')"
  shows "users_wellformed cache'"
proof -
  obtain existing cache1 where g: "getCacheItem (USERS_CACHE_PREFIX @ email) now cache = (existing, cache1)"
    by (cases "getCacheItem (USERS_CACHE_PREFIX @ email) now cache")
  have w1: "users_wellformed cache1"
    using users_wellformed_subset[OF assms(1) getCacheItem_from_cache(1)[OF g]] .
  show ?thesis
  proof (cases "truthy existing")
    case True
    with assms(2) g w1 show ?thesis by (simp add: registerUser_def)
  next
    case False
    let ?user = "JObj [(js ''id'', JStr (randomUUID env)), (js ''email'', JStr email),
                   (js ''passwordHash'', JStr (randomSalt env @ js '':'' @ pbkdf2 env password (randomSalt env))),
                   (js ''createdAt'', JStr (isoDate env))]"
    have c: "cache' = setCacheItem (USERS_CACHE_PREFIX @ email) ?user
                           (Some (30 * 24 * 60 * 60 * 1000)) now cache1"
      using assms(2) g False by (simp add: registerUser_def Let_def)
    have "is_User ?user" by (simp add: is_User_def)
    moreover have "users_wellformed (tl cache1)"
      using users_wellformed_subset[OF w1, of "tl cache1"] by (cases cache1) auto
    moreover have "users_wellformed (lru_delete (USERS_CACHE_PREFIX @ email) cache1)"
      using users_wellformed_subset[OF w1, of "lru_delete (USERS_CACHE_PREFIX @ email) cache1"]
      by (auto simp: lru_delete_def)
    ultimately show ?thesis using c w1
      by (auto simp: setCacheItem_def lru_set_def Let_def users_wellformed_def)
  qed
qed

lemmas auth_defs = registerUser_def getCurrentUser_def getCacheItem_def setCacheItem_def
  lru_get_def lru_set_def lru_delete_def isStale_def Let_def rest_without_def own_properties_def
  example_sources_def example_toString_def example_session_def example_user_def example_cache_def
  users_wellformed_def is_User_def USERS_CACHE_PREFIX_def SESSIONS_CACHE_PREFIX_def cache_max_def
  js_def

text \<open>
  Claim C10. A successful \<open>registerUser\<close> returns an object with exactly the
  properties \<open>id\<close>, \<open>email\<close> and \<open>createdAt\<close>. Whatever \<open>getCurrentUser\<close> returns
  other than \<open>null\<close> has no \<open>passwordHash\<close> property, and has exactly the properties
  \<open>id\<close>, \<open>email\<close> and \<open>createdAt\<close> when the users in the cache have the shape that
  \<open>registerUser\<close> stores.
\<close>

theorem auth_results_omit_passwordHash:
  "(registerUser env email password now cache = (Inr u, cache') \<longrightarrow>
      own_keys u = [js ''id'', js ''email'', js ''createdAt'']
      \<and> \<not> has_own u (js ''passwordHash''))
   \<and> (getCurrentUser toString cookie later cache2 = (u', cache2') \<and> u' \<noteq> JNull \<longrightarrow>
      \<not> has_own u' (js ''passwordHash'')
      \<and> (users_wellformed cache2 \<longrightarrow> own_keys u' = [js ''id'', js ''email'', js ''createdAt'']))"
proof (intro conjI impI)
  assume r: "registerUser env email password now cache = (Inr u, cache')"
  from registerUser_result[OF r] show "own_keys u = [js ''id'', js ''email'', js ''createdAt'']"
    by (simp add: own_keys_def)
  from registerUser_result[OF r] show "\<not> has_own u (js ''passwordHash'')"
    by (simp add: has_own_def js_def)
next
  assume g: "getCurrentUser toString cookie later cache2 = (u', cache2') \<and> u' \<noteq> JNull"
  from getCurrentUser_result[of toString cookie later cache2 u' cache2'] g
  obtain user rest e where u: "u' = rest_without (js ''passwordHash'') user"
    and e: "e \<in> set cache2" "ekey e = USERS_CACHE_PREFIX @ rest" "evalue e = user"
    by blast
  from u show "\<not> has_own u' (js ''passwordHash'')" by (simp add: has_own_rest_without)
  assume "users_wellformed cache2"
  from users_wellformed_value[OF this e(1,2)] e(3) u
  show "own_keys u' = [js ''id'', js ''email'', js ''createdAt'']"
    by (simp add: rest_without_User)
qed

theorem auth_results_omit_passwordHash_witness:
  "registerUser example_sources (js ''a@b.c'') (js ''secret'') 0 []
     = (Inr example_user, snd (registerUser example_sources (js ''a@b.c'') (js ''secret'') 0 []))
   \<and> getCurrentUser example_toString (Some (js ''f00d'')) 2 example_cache
     = (example_user, snd (getCurrentUser example_toString (Some (js ''f00d'')) 2 example_cache))
   \<and> users_wellformed example_cache
   \<and> own_keys example_user = [js ''id'', js ''email'', js ''createdAt'']
   \<and> \<not> has_own example_user (js ''passwordHash'')"
proof -
  have r: "registerUser example_sources (js ''a@b.c'') (js ''secret'') 0 []
     = (Inr example_user, snd (registerUser example_sources (js ''a@b.c'') (js ''secret'') 0 []))"
    by (simp add: auth_defs)
  have g: "getCurrentUser example_toString (Some (js ''f00d'')) 2 example_cache
     = (example_user, snd (getCurrentUser example_toString (Some (js ''f00d'')) 2 example_cache))"
    by (simp add: auth_defs)
  have n: "example_user \<noteq> JNull" by (simp add: example_user_def)
  have w: "users_wellformed example_cache" by (simp add: auth_defs)
  from auth_results_omit_passwordHash[of example_sources "js ''a@b.c''" "js ''secret''" 0 "[]"
      example_user "snd (registerUser example_sources (js ''a@b.c'') (js ''secret'') 0 [])"
      example_toString "Some (js ''f00d'')" 2 example_cache example_user
      "snd (getCurrentUser example_toString (Some (js ''f00d'')) 2 example_cache)"]
    r g n w
  show ?thesis by blast
qed

end
